theory Spec2Isabelle
  imports Complex_Main
begin

section \<open>Dates\<close>

text \<open>
  A Python \<open>datetime.date\<close> is modelled by its proleptic Gregorian ordinal
  (\<open>date.toordinal()\<close>): adding a \<open>timedelta\<close> or a \<open>relativedelta\<close> of whole days adds
  to the ordinal, subtracting two dates gives the difference of the ordinals, and dates
  compare as their ordinals do. The constructor \<open>date(y, m, d)\<close> follows
  \<open>datetime._ymd2ord\<close>; it is only applied to valid calendar dates in the source.
\<close>

type_synonym pydate = int

definition is_leap :: "int \<Rightarrow> bool" where
  "is_leap y = (y mod 4 = 0 \<and> (y mod 100 \<noteq> 0 \<or> y mod 400 = 0))"

definition days_before_year :: "int \<Rightarrow> int" where
  "days_before_year year =
     (let y = year - 1 in y * 365 + y div 4 - y div 100 + y div 400)"

definition days_in_month_tab :: "int list" where
  "days_in_month_tab = [31, 28, 31, 30, 31, 30, 31, 31, 30, 31, 30, 31]"

definition days_before_month :: "int \<Rightarrow> int \<Rightarrow> int" where
  "days_before_month year month =
     sum_list (take (nat (month - 1)) days_in_month_tab)
       + (if month > 2 \<and> is_leap year then 1 else 0)"

definition date :: "int \<Rightarrow> int \<Rightarrow> int \<Rightarrow> pydate" where
  "date year month day = days_before_year year + days_before_month year month + day"

definition DEPART_WINDOW_START :: pydate where
  "DEPART_WINDOW_START = date 2026 1 1"

definition DEPART_WINDOW_END :: pydate where
  "DEPART_WINDOW_END = date 2026 1 15"

text \<open>
  \<open>daterange(start, end)\<close>: \<open>range((end - start).days + 1)\<close> is empty when the count is
  not positive (\<open>nat\<close> of a negative number is 0).
\<close>

definition daterange :: "pydate \<Rightarrow> pydate \<Rightarrow> pydate list" where
  "daterange start end = map (\<lambda>n. start + int n) [0 ..< nat (end - start + 1)]"

text \<open>The loop of \<open>generate_paris_osaka_exact90_pairs\<close>, with the list \<open>pairs\<close> it appends to.\<close>

fun exact90_loop :: "pydate list \<Rightarrow> (pydate \<times> pydate) list \<Rightarrow> (pydate \<times> pydate) list" where
  "exact90_loop [] pairs = pairs"
| "exact90_loop (d0 # ds) pairs =
     (let d1 = d0 + 90 in
      if date 2026 4 1 \<le> d1 \<and> d1 \<le> date 2026 4 15
      then exact90_loop ds (pairs @ [(d0, d1)])
      else exact90_loop ds pairs)"

definition generate_paris_osaka_exact90_pairs :: "(pydate \<times> pydate) list" where
  "generate_paris_osaka_exact90_pairs =
     exact90_loop (daterange DEPART_WINDOW_START DEPART_WINDOW_END) []"

section \<open>Python values and built-ins\<close>

text \<open>
  Exceptions are values: a computation that can raise returns \<open>py_error + 'a\<close>, with
  \<open>Inl\<close> the exception. \<open>HTTPError\<close> carries the status code of the response that
  \<open>raise_for_status\<close> rejected.
\<close>

datatype py_error = AttributeError | TypeError | ValueError | OverflowError | HTTPError int

fun py_bind :: "py_error + 'a \<Rightarrow> ('a \<Rightarrow> py_error + 'b) \<Rightarrow> py_error + 'b" where
  "py_bind (Inl e) f = Inl e"
| "py_bind (Inr x) f = f x"

subsection \<open>Strings\<close>

text \<open>
  Strings are lists of characters below code point 256. \<open>py_isspace\<close> lists the
  characters that \<open>int()\<close> and \<open>float()\<close> skip at both ends of their argument: the six
  ASCII white-space characters of C, and the two white-space characters above code point
  127, which both built-ins replace by a space before they parse. The separators
  \<open>0x1C\<close> to \<open>0x1F\<close>, which \<open>str.strip()\<close> would remove, are not among them. \<open>py_lower\<close>
  is \<open>str.lower()\<close> on the ASCII letters.
\<close>

definition py_isspace :: "char \<Rightarrow> bool" where
  "py_isspace c = (of_char c \<in> {9, 10, 11, 12, 13, 32, 133, 160 :: nat})"

definition py_strip :: "string \<Rightarrow> string" where
  "py_strip s = rev (dropWhile py_isspace (rev (dropWhile py_isspace s)))"

definition upper_letters :: string where
  "upper_letters = ''ABCDEFGHIJKLMNOPQRSTUVWXYZ''"

definition lower_letters :: string where
  "lower_letters = ''abcdefghijklmnopqrstuvwxyz''"

definition lower_char :: "char \<Rightarrow> char" where
  "lower_char c =
     (case map_of (zip upper_letters lower_letters) c of
        Some l \<Rightarrow> l
      | None \<Rightarrow> c)"

definition py_lower :: "string \<Rightarrow> string" where
  "py_lower s = map lower_char s"

text \<open>\<open>s.replace(ab, "")\<close> for a two-character pattern: occurrences are removed left to right.\<close>

fun remove2 :: "char \<Rightarrow> char \<Rightarrow> string \<Rightarrow> string" where
  "remove2 a b (x # y # r) =
     (if x = a \<and> y = b then remove2 a b r else x # remove2 a b (y # r))"
| "remove2 a b r = r"

text \<open>\<open>s.split(c)\<close> for a one-character separator; the result is never empty.\<close>

fun py_split :: "char \<Rightarrow> string \<Rightarrow> string list" where
  "py_split c [] = [[]]"
| "py_split c (x # xs) =
     (if x = c then [] # py_split c xs
      else (case py_split c xs of p # ps \<Rightarrow> (x # p) # ps | [] \<Rightarrow> [[x]]))"

subsection \<open>Parsing numbers: \<open>int(str)\<close> and \<open>float(str)\<close>\<close>

text \<open>
  Both built-ins strip white space, accept one sign, and read decimal digits in which
  single underscores may stand between digits. \<open>float\<close> also accepts a fraction, an
  exponent, and the words inf, infinity and nan in any letter case. Everything else is a
  \<open>ValueError\<close>.
\<close>

definition is_digit :: "char \<Rightarrow> bool" where
  "is_digit c = (48 \<le> (of_char c :: nat) \<and> (of_char c :: nat) \<le> 57)"

definition digit_val :: "char \<Rightarrow> nat" where
  "digit_val c = of_char c - 48"

fun adjacent_underscores :: "string \<Rightarrow> bool" where
  "adjacent_underscores (a # b # s) =
     ((a = CHR ''_'' \<and> b = CHR ''_'') \<or> adjacent_underscores (b # s))"
| "adjacent_underscores _ = False"

definition digitpart :: "string \<Rightarrow> string option" where
  "digitpart s =
     (if s = [] \<or> hd s = CHR ''_'' \<or> last s = CHR ''_'' \<or> adjacent_underscores s
         \<or> \<not> list_all (\<lambda>c. is_digit c \<or> c = CHR ''_'') s
      then None else Some (filter is_digit s))"

definition dec_val :: "string \<Rightarrow> nat" where
  "dec_val ds = foldl (\<lambda>a c. 10 * a + digit_val c) 0 ds"

definition split_sign :: "string \<Rightarrow> bool \<times> string" where
  "split_sign s =
     (case s of
        c # r \<Rightarrow> if c = CHR ''-'' then (True, r) else if c = CHR ''+'' then (False, r) else (False, s)
      | [] \<Rightarrow> (False, s))"

definition py_int :: "string \<Rightarrow> py_error + int" where
  "py_int s =
     (let (neg, body) = split_sign (py_strip s) in
      case digitpart body of
        None \<Rightarrow> Inl ValueError
      | Some ds \<Rightarrow> Inr (if neg then - int (dec_val ds) else int (dec_val ds)))"

text \<open>
  A Python float is modelled by a real number or one of the three special values.
  Literals, sums and quotients are kept exact, and \<open>Fin x\<close> is read as the binary64
  number nearest to \<open>x\<close>; the source holds that number up to the rounding errors of the
  intermediate operations, which the model does not accumulate. The rounding of binary64
  itself is \<open>b64_round\<close> below; it is applied where a result of the source depends on
  it at ordinary inputs, namely in \<open>round\<close>, in the reference price of the combo alert,
  and for the overflow of \<open>float\<close> on an integer.
\<close>

datatype pyfloat = Fin real | PInf | NInf | NaN

definition split_at :: "(char \<Rightarrow> bool) \<Rightarrow> string \<Rightarrow> string \<times> string option" where
  "split_at P s =
     (takeWhile (\<lambda>c. \<not> P c) s,
      case dropWhile (\<lambda>c. \<not> P c) s of [] \<Rightarrow> None | _ # r \<Rightarrow> Some r)"

definition pow10 :: "int \<Rightarrow> real" where
  "pow10 e = (if 0 \<le> e then 10 ^ nat e else 1 / 10 ^ nat (- e))"

definition exponent_val :: "string option \<Rightarrow> int option" where
  "exponent_val ex =
     (case ex of
        None \<Rightarrow> Some 0
      | Some e \<Rightarrow>
          (let (neg, b) = split_sign e in
           case digitpart b of
             None \<Rightarrow> None
           | Some ds \<Rightarrow> Some (if neg then - int (dec_val ds) else int (dec_val ds))))"

definition optional_digits :: "string \<Rightarrow> string option" where
  "optional_digits s = (if s = [] then Some [] else digitpart s)"

definition decimal_literal :: "string \<Rightarrow> real option" where
  "decimal_literal s =
     (let (mant, ex) = split_at (\<lambda>c. c = CHR ''e'' \<or> c = CHR ''E'') s;
          (ip, fp) = split_at (\<lambda>c. c = CHR ''.'') mant
      in case (optional_digits ip,
               case fp of None \<Rightarrow> Some [] | Some f \<Rightarrow> optional_digits f,
               exponent_val ex) of
           (Some i, Some f, Some e) \<Rightarrow>
             if i = [] \<and> f = [] then None
             else Some ((real (dec_val i) + real (dec_val f) / 10 ^ length f) * pow10 e)
         | _ \<Rightarrow> None)"

definition py_float_str :: "string \<Rightarrow> py_error + pyfloat" where
  "py_float_str s =
     (let (neg, body) = split_sign (py_strip s); lb = py_lower body in
      if lb = ''inf'' \<or> lb = ''infinity'' then Inr (if neg then NInf else PInf)
      else if lb = ''nan'' then Inr NaN
      else (case decimal_literal body of
              None \<Rightarrow> Inl ValueError
            | Some v \<Rightarrow> Inr (Fin (if neg then - v else v))))"

subsection \<open>Float arithmetic and comparison\<close>

fun pf_add :: "pyfloat \<Rightarrow> pyfloat \<Rightarrow> pyfloat" where
  "pf_add NaN _ = NaN"
| "pf_add _ NaN = NaN"
| "pf_add (Fin a) (Fin b) = Fin (a + b)"
| "pf_add PInf NInf = NaN"
| "pf_add NInf PInf = NaN"
| "pf_add PInf _ = PInf"
| "pf_add _ PInf = PInf"
| "pf_add NInf _ = NInf"
| "pf_add _ NInf = NInf"

text \<open>Division by a positive finite constant, as in \<open>m / 60.0\<close>.\<close>

fun pf_div_by :: "pyfloat \<Rightarrow> real \<Rightarrow> pyfloat" where
  "pf_div_by (Fin a) d = Fin (a / d)"
| "pf_div_by x d = x"

fun pf_less :: "pyfloat \<Rightarrow> pyfloat \<Rightarrow> bool" where
  "pf_less NaN _ = False"
| "pf_less _ NaN = False"
| "pf_less (Fin a) (Fin b) = (a < b)"
| "pf_less NInf NInf = False"
| "pf_less NInf _ = True"
| "pf_less _ NInf = False"
| "pf_less PInf _ = False"
| "pf_less _ PInf = True"

fun pf_le :: "pyfloat \<Rightarrow> pyfloat \<Rightarrow> bool" where
  "pf_le NaN _ = False"
| "pf_le _ NaN = False"
| "pf_le (Fin a) (Fin b) = (a \<le> b)"
| "pf_le NInf _ = True"
| "pf_le _ PInf = True"
| "pf_le _ NInf = False"
| "pf_le PInf _ = False"

subsection \<open>Binary64 rounding\<close>

text \<open>
  Round to nearest, ties to even, as IEEE 754 prescribes for binary64: a number \<open>a > 0\<close>
  with \<open>2^e \<le> a < 2^(e+1)\<close> is rounded to a multiple of \<open>2^(e-52)\<close>, the exponent being
  at least \<open>-1022\<close> (below that the numbers are subnormal, multiples of \<open>2^-1074\<close>), and a
  result of \<open>2^1024\<close> or more is an infinity. \<open>bit_length\<close> is \<open>int.bit_length\<close>, and
  \<open>binexp a\<close> is the exponent \<open>e\<close>.
\<close>

definition round_half_even :: "real \<Rightarrow> int" where
  "round_half_even y =
     (let f = \<lfloor>y\<rfloor>; d = y - of_int f
      in if d < 1 / 2 then f else if 1 / 2 < d then f + 1 else if even f then f else f + 1)"

fun bit_length :: "nat \<Rightarrow> nat" where
  "bit_length n = (if n = 0 then 0 else Suc (bit_length (n div 2)))"

declare bit_length.simps [simp del]

definition pow2 :: "int \<Rightarrow> real" where
  "pow2 e = (if 0 \<le> e then 2 ^ nat e else 1 / 2 ^ nat (- e))"

definition binexp :: "real \<Rightarrow> int" where
  "binexp a =
     (if 1 \<le> a then int (bit_length (nat \<lfloor>a\<rfloor>)) - 1
      else - int (bit_length (nat (\<lceil>1 / a\<rceil> - 1))))"

definition b64_ulp :: "real \<Rightarrow> real" where
  "b64_ulp a = pow2 (max (binexp a) (- 1022) - 52)"

definition b64_round :: "real \<Rightarrow> pyfloat" where
  "b64_round x =
     (if x = 0 then Fin 0
      else
        (let a = \<bar>x\<bar>;
             r = of_int (round_half_even (a / b64_ulp a)) * b64_ulp a
         in if 2 ^ 1024 \<le> r then (if x < 0 then NInf else PInf)
            else Fin (if x < 0 then - r else r)))"

text \<open>The binary64 number that a float of the model stands for.\<close>

fun to_b64 :: "pyfloat \<Rightarrow> pyfloat" where
  "to_b64 (Fin x) = b64_round x"
| "to_b64 v = v"

text \<open>\<open>a + b\<close> on binary64 numbers: the sum of the two numbers, rounded.\<close>

definition b64_add :: "pyfloat \<Rightarrow> pyfloat \<Rightarrow> pyfloat" where
  "b64_add a b = to_b64 (pf_add (to_b64 a) (to_b64 b))"

subsection \<open>JSON values\<close>

text \<open>
  The result of \<open>response.json()\<close>, typed \<open>Dict[str, Any]\<close> in the source: any JSON
  value may stand where the code expects a dictionary, a list or a string, and the
  operations below raise what Python raises on the wrong kind of value. A dictionary is
  an association list with distinct keys.
\<close>

datatype json =
    JNull | JBool bool | JInt int | JFloat pyfloat | JStr string
  | JArr "json list" | JObj "(string \<times> json) list"

definition py_truthy :: "json \<Rightarrow> bool" where
  "py_truthy v =
     (case v of
        JNull \<Rightarrow> False
      | JBool b \<Rightarrow> b
      | JInt i \<Rightarrow> i \<noteq> 0
      | JFloat f \<Rightarrow> f \<noteq> Fin 0
      | JStr s \<Rightarrow> s \<noteq> []
      | JArr xs \<Rightarrow> xs \<noteq> []
      | JObj kvs \<Rightarrow> kvs \<noteq> [])"

text \<open>\<open>d.get(k, dflt)\<close>: only a dictionary has the method.\<close>

definition py_get :: "json \<Rightarrow> string \<Rightarrow> json \<Rightarrow> py_error + json" where
  "py_get d k dflt =
     (case d of
        JObj kvs \<Rightarrow> Inr (case map_of kvs k of Some v \<Rightarrow> v | None \<Rightarrow> dflt)
      | _ \<Rightarrow> Inl AttributeError)"

text \<open>\<open>float(v)\<close>; an integer too large for a binary64 number raises \<open>OverflowError\<close>.\<close>

definition py_float :: "json \<Rightarrow> py_error + pyfloat" where
  "py_float v =
     (case v of
        JStr s \<Rightarrow> py_float_str s
      | JInt i \<Rightarrow>
          (case b64_round (of_int i) of
             Fin _ \<Rightarrow> Inr (Fin (of_int i))
           | _ \<Rightarrow> Inl OverflowError)
      | JFloat f \<Rightarrow> Inr f
      | JBool b \<Rightarrow> Inr (Fin (if b then 1 else 0))
      | _ \<Rightarrow> Inl TypeError)"

section \<open>The Amadeus client\<close>

text \<open>
  The class \<open>Amadeus\<close>. The source indents \<open>search_offers\<close> and \<open>_safe_get\<close> with a
  mixture of tabs and spaces; both take \<open>self\<close> and are read as methods of the class.

  The remote service is a parameter: \<open>srv_post n\<close> is its answer to the \<open>n\<close>-th token
  request and \<open>srv_get n url headers params\<close> its answer to the \<open>n\<close>-th GET request of the
  run; a query parameter is a string or a date (sent in ISO format). Of a response the
  client reads the status code, the \<open>Retry-After\<close> header and the JSON body (\<open>None\<close>
  when the body is not JSON). Network failures and timeouts are not modelled: the
  service always answers.

  The client object is the record \<open>amadeus\<close>: its host, its cached token (\<open>JNull\<close> for
  Python's \<open>None\<close>), and a log of what it did, namely the numbers of POST and GET
  requests sent and the list of the durations it slept.
\<close>

record response =
  status_code :: int
  retry_after :: "string option"
  json_body :: "json option"

datatype http_headers = Bearer json

datatype param = PStr string | PDate pydate

type_synonym params = "(string \<times> param) list"

record server =
  srv_post :: "nat \<Rightarrow> response"
  srv_get :: "nat \<Rightarrow> string \<Rightarrow> http_headers \<Rightarrow> params \<Rightarrow> response"

record amadeus =
  host :: string
  token :: json
  posts :: nat
  gets :: nat
  slept :: "int list"

text \<open>\<open>Response.raise_for_status()\<close> of the requests library: 4xx and 5xx raise.\<close>

definition raise_for_status :: "response \<Rightarrow> py_error + unit" where
  "raise_for_status r =
     (if 400 \<le> status_code r \<and> status_code r < 600
      then Inl (HTTPError (status_code r)) else Inr ())"

definition response_json :: "response \<Rightarrow> py_error + json" where
  "response_json r = (case json_body r of None \<Rightarrow> Inl ValueError | Some j \<Rightarrow> Inr j)"

text \<open>\<open>Amadeus._auth\<close>.\<close>

definition auth :: "server \<Rightarrow> amadeus \<Rightarrow> (py_error + unit) \<times> amadeus" where
  "auth srv c =
     (let r = srv_post srv (posts c); c1 = c\<lparr>posts := Suc (posts c)\<rparr> in
      case raise_for_status r of
        Inl e \<Rightarrow> (Inl e, c1)
      | Inr _ \<Rightarrow>
          (case response_json r of
             Inl e \<Rightarrow> (Inl e, c1)
           | Inr j \<Rightarrow>
               (case py_get j ''access_token'' JNull of
                  Inl e \<Rightarrow> (Inl e, c1)
                | Inr t \<Rightarrow> (Inr (), c1\<lparr>token := t\<rparr>))))"

text \<open>\<open>Amadeus._headers\<close>.\<close>

definition headers :: "server \<Rightarrow> amadeus \<Rightarrow> (py_error + http_headers) \<times> amadeus" where
  "headers srv c =
     (if \<not> py_truthy (token c)
      then (case auth srv c of
              (Inl e, c1) \<Rightarrow> (Inl e, c1)
            | (Inr _, c1) \<Rightarrow> (Inr (Bearer (token c1)), c1))
      else (Inr (Bearer (token c)), c))"

text \<open>\<open>time.sleep(secs)\<close> raises \<open>ValueError\<close> on a negative duration.\<close>

definition sleep :: "int \<Rightarrow> amadeus \<Rightarrow> (py_error + unit) \<times> amadeus" where
  "sleep secs c =
     (if secs < 0 then (Inl ValueError, c) else (Inr (), c\<lparr>slept := slept c @ [secs]\<rparr>))"

definition backoff :: "nat \<Rightarrow> int" where
  "backoff attempt = min 60 (2 ^ attempt)"

text \<open>
  Lines 145 to 149 of \<open>_safe_get\<close>: an absent or empty header is falsy, and a header that
  \<open>int\<close> rejects falls back to the exponential schedule.
\<close>

definition wait_seconds :: "nat \<Rightarrow> response \<Rightarrow> int" where
  "wait_seconds attempt resp =
     (case retry_after resp of
        None \<Rightarrow> backoff attempt
      | Some ra \<Rightarrow>
          if ra = [] then backoff attempt
          else (case py_int ra of Inr n \<Rightarrow> min 60 n | Inl _ \<Rightarrow> backoff attempt))"

text \<open>
  The \<open>while True\<close> loop of \<open>Amadeus._safe_get\<close>, with the counter \<open>attempt\<close> as an
  argument. It terminates: a retry needs \<open>attempt + 1 \<le> max_retries\<close>.
\<close>

function safe_get_loop ::
  "server \<Rightarrow> string \<Rightarrow> params \<Rightarrow> int \<Rightarrow> nat \<Rightarrow> amadeus \<Rightarrow> (py_error + response) \<times> amadeus" where
  "safe_get_loop srv url ps max_retries attempt c =
     (case headers srv c of
        (Inl e, c1) \<Rightarrow> (Inl e, c1)
      | (Inr h, c1) \<Rightarrow>
          (let resp = srv_get srv (gets c1) url h ps;
               c2 = c1\<lparr>gets := Suc (gets c1)\<rparr>
           in if status_code resp = 429 then
                (case (if int (Suc attempt) > max_retries then raise_for_status resp else Inr ()) of
                   Inl e \<Rightarrow> (Inl e, c2)
                 | Inr _ \<Rightarrow>
                     (case sleep (wait_seconds (Suc attempt) resp) c2 of
                        (Inl e, c3) \<Rightarrow> (Inl e, c3)
                      | (Inr _, c3) \<Rightarrow> safe_get_loop srv url ps max_retries (Suc attempt) c3))
              else (case raise_for_status resp of
                      Inl e \<Rightarrow> (Inl e, c2)
                    | Inr _ \<Rightarrow> (Inr resp, c2))))"
  by pat_completeness auto
termination
  apply (relation "measure (\<lambda>(srv, url, ps, max_retries, attempt, c). nat (max_retries + 1 - int attempt))")
   apply simp
  apply (auto simp: raise_for_status_def split: if_splits)
  done

declare safe_get_loop.simps [simp del]

definition safe_get :: "server \<Rightarrow> string \<Rightarrow> params \<Rightarrow> int \<Rightarrow> amadeus \<Rightarrow> (py_error + response) \<times> amadeus" where
  "safe_get srv url ps max_retries c = safe_get_loop srv url ps max_retries 0 c"

text \<open>
  The responses to the GET requests of one call, seen from a client that holds a token:
  \<open>get_response srv url ps c i\<close> answers the \<open>i\<close>-th request of the call (from 0), and
  \<open>waits\<close> lists the durations slept after the first \<open>k\<close> of them.
\<close>

definition get_response :: "server \<Rightarrow> string \<Rightarrow> params \<Rightarrow> amadeus \<Rightarrow> nat \<Rightarrow> response" where
  "get_response srv url ps c i = srv_get srv (gets c + i) url (Bearer (token c)) ps"

definition waits :: "server \<Rightarrow> string \<Rightarrow> params \<Rightarrow> amadeus \<Rightarrow> nat \<Rightarrow> nat \<Rightarrow> int list" where
  "waits srv url ps c attempt k =
     map (\<lambda>i. wait_seconds (attempt + i + 1) (get_response srv url ps c i)) [0 ..< k]"

text \<open>
  Services and clients for the examples: \<open>client_fresh\<close> has no token yet, \<open>client0\<close> is
  the same client after its first authentication.
\<close>

definition srv_always :: "response \<Rightarrow> server" where
  "srv_always r = \<lparr>srv_post = (\<lambda>n. r), srv_get = (\<lambda>n url h ps. r)\<rparr>"

definition resp_429 :: "string option \<Rightarrow> response" where
  "resp_429 ra = \<lparr>status_code = 429, retry_after = ra, json_body = None\<rparr>"

definition resp_200 :: response where
  "resp_200 = \<lparr>status_code = 200, retry_after = None, json_body = Some (JObj [(''data'', JArr [])])\<rparr>"

definition resp_401 :: response where
  "resp_401 = \<lparr>status_code = 401, retry_after = None, json_body = None\<rparr>"

definition resp_token :: response where
  "resp_token = \<lparr>status_code = 200, retry_after = None,
                  json_body = Some (JObj [(''access_token'', JStr ''tok'')])\<rparr>"

definition resp_304 :: response where
  "resp_304 = \<lparr>status_code = 304, retry_after = None, json_body = None\<rparr>"

definition srv_three_429 :: server where
  "srv_three_429 =
     \<lparr>srv_post = (\<lambda>n. resp_token),
      srv_get = (\<lambda>n url h ps. if n < 3 then resp_429 None else resp_200)\<rparr>"

definition client_fresh :: amadeus where
  "client_fresh = \<lparr>host = ''https://test.api.amadeus.com'', token = JNull, posts = 0,
                     gets = 0, slept = []\<rparr>"

definition client0 :: amadeus where
  "client0 = \<lparr>host = ''https://test.api.amadeus.com'', token = JStr ''tok'', posts = 1,
                gets = 0, slept = []\<rparr>"

section \<open>The duration parser\<close>

text \<open>
  \<open>parse_duration_hours\<close>. \<open>float_or_zero\<close> is the source's \<open>float(x) if x else 0.0\<close> and
  \<open>float(x or 0)\<close>; \<open>parse_normalised\<close> is the body from line 163 on, applied to the string
  with every \<open>PT\<close> removed and lower-cased; \<open>minutes_of_tail\<close> is the inner \<open>if\<close> on the
  text after the first \<open>h\<close>.
\<close>

definition float_or_zero :: "string \<Rightarrow> py_error + pyfloat" where
  "float_or_zero s = (if s \<noteq> [] then py_float_str s else Inr (Fin 0))"

definition minutes_of_tail :: "string \<Rightarrow> py_error + pyfloat" where
  "minutes_of_tail tail =
     (if CHR ''m'' \<in> set tail then float_or_zero (hd (py_split CHR ''m'' tail))
      else Inr (Fin 0))"

definition parse_normalised :: "string \<Rightarrow> py_error + pyfloat" where
  "parse_normalised iso1 =
     (if CHR ''h'' \<in> set iso1 then
        (let parts = py_split CHR ''h'' iso1 in
         py_bind (float_or_zero (hd parts)) (\<lambda>h.
         py_bind (minutes_of_tail (if length parts > 1 then parts ! 1 else [])) (\<lambda>m.
         Inr (pf_add h (pf_div_by m 60)))))
      else if CHR ''m'' \<in> set iso1 then
        py_bind (float_or_zero (filter (\<lambda>c. c \<noteq> CHR ''m'') iso1)) (\<lambda>m.
        Inr (pf_add (Fin 0) (pf_div_by m 60)))
      else Inr (pf_add (Fin 0) (pf_div_by (Fin 0) 60)))"

text \<open>
  The argument is whatever the offer holds under \<open>duration\<close>: a falsy value gives 0.0,
  and \<open>startswith\<close> exists on strings only.
\<close>

definition parse_duration_hours :: "json \<Rightarrow> py_error + pyfloat" where
  "parse_duration_hours iso_v =
     (if \<not> py_truthy iso_v then Inr (Fin 0)
      else case iso_v of
        JStr s \<Rightarrow>
          if take 2 s \<noteq> ''PT'' then Inr (Fin 0)
          else parse_normalised (py_lower (remove2 CHR ''P'' CHR ''T'' s))
      | _ \<Rightarrow> Inl AttributeError)"

text \<open>
  Well-formed duration tokens, for stating what the parser returns on them: \<open>PT\<close>, then
  an optional hours component (digits and the designator \<open>hc\<close>), then an optional
  minutes component (digits and the designator \<open>mc\<close>).
\<close>

definition component :: "string option \<Rightarrow> char \<Rightarrow> string" where
  "component ds c = (case ds of None \<Rightarrow> [] | Some d \<Rightarrow> d @ [c])"

definition component_val :: "string option \<Rightarrow> nat" where
  "component_val ds = (case ds of None \<Rightarrow> 0 | Some d \<Rightarrow> dec_val d)"

definition digits_ok :: "string option \<Rightarrow> bool" where
  "digits_ok ds = (case ds of None \<Rightarrow> True | Some d \<Rightarrow> d \<noteq> [] \<and> list_all is_digit d)"

definition duration_token :: "string option \<Rightarrow> char \<Rightarrow> string option \<Rightarrow> char \<Rightarrow> string" where
  "duration_token h hc m mc = ''PT'' @ component h hc @ component m mc"

text \<open>
  The two texts of an input that the parser hands to \<open>float\<close>, for stating on which
  malformed inputs it returns 0.0. \<open>normalised_text\<close> is the input without \<open>PT\<close>, in
  lower case. With an \<open>h\<close> in it, the hours text is what stands before the first \<open>h\<close>,
  and the minutes text is what stands before the first \<open>m\<close> between the first and the
  second \<open>h\<close>; without an \<open>h\<close> there is no hours text, and the minutes text is the
  whole text without its \<open>m\<close>s when it has one. A text reads as zero when it is empty or
  \<open>float\<close> gives 0.0 for it.
\<close>

definition normalised_text :: "string \<Rightarrow> string" where
  "normalised_text s = py_lower (remove2 CHR ''P'' CHR ''T'' s)"

definition hours_text :: "string \<Rightarrow> string" where
  "hours_text n = (if CHR ''h'' \<in> set n then takeWhile (\<lambda>c. c \<noteq> CHR ''h'') n else [])"

definition minutes_text :: "string \<Rightarrow> string" where
  "minutes_text n =
     (if CHR ''h'' \<in> set n then
        (let tail = takeWhile (\<lambda>c. c \<noteq> CHR ''h'') (tl (dropWhile (\<lambda>c. c \<noteq> CHR ''h'') n))
         in if CHR ''m'' \<in> set tail then takeWhile (\<lambda>c. c \<noteq> CHR ''m'') tail else [])
      else if CHR ''m'' \<in> set n then filter (\<lambda>c. c \<noteq> CHR ''m'') n
      else [])"

definition reads_as_zero :: "string \<Rightarrow> bool" where
  "reads_as_zero t = (t = [] \<or> py_float_str t = Inr (Fin 0))"

section \<open>The offer evaluator\<close>

text \<open>
  \<open>offer_meets_rules\<close>. The loops run over whatever the offer holds: \<open>py_iter\<close> is the
  \<open>for\<close> statement, which raises on a value that cannot be iterated, and each loop
  carries the variables it updates. \<open>offer_locals\<close> is the body of the \<open>try\<close> block up to
  line 196, returning the locals \<open>total_h\<close>, \<open>max_stops\<close>, \<open>layovers\<close>, \<open>bag_included\<close>
  and \<open>premium\<close>; \<open>offer_try\<close> is the whole \<open>try\<close> block with the dictionary \<open>metrics\<close>
  as state, which only \<open>metrics.update\<close> changes; \<open>offer_meets_rules\<close> adds the handler.
\<close>

text \<open>Iteration (\<open>for x in v\<close>) and \<open>len(v)\<close>.\<close>

definition py_iter :: "json \<Rightarrow> py_error + json list" where
  "py_iter v =
     (case v of
        JArr xs \<Rightarrow> Inr xs
      | JObj kvs \<Rightarrow> Inr (map (\<lambda>kv. JStr (fst kv)) kvs)
      | JStr s \<Rightarrow> Inr (map (\<lambda>c. JStr [c]) s)
      | _ \<Rightarrow> Inl TypeError)"

definition py_len :: "json \<Rightarrow> py_error + nat" where
  "py_len v =
     (case v of
        JArr xs \<Rightarrow> Inr (length xs)
      | JObj kvs \<Rightarrow> Inr (length kvs)
      | JStr s \<Rightarrow> Inr (length s)
      | _ \<Rightarrow> Inl TypeError)"

text \<open>\<open>v > 0\<close>.\<close>

definition py_gt_zero :: "json \<Rightarrow> py_error + bool" where
  "py_gt_zero v =
     (case v of
        JInt i \<Rightarrow> Inr (0 < i)
      | JFloat f \<Rightarrow> Inr (pf_less (Fin 0) f)
      | JBool b \<Rightarrow> Inr b
      | _ \<Rightarrow> Inl TypeError)"

definition MAX_STOPS :: int where
  "MAX_STOPS = 1"

definition MAX_DURATION_HOURS :: pyfloat where
  "MAX_DURATION_HOURS = Fin 25"

definition BAGGAGE_REQUIRED :: bool where
  "BAGGAGE_REQUIRED = True"

definition PREMIUM_CODES :: "string list" where
  "PREMIUM_CODES = [''AF'', ''KL'', ''AY'', ''NH'', ''JL'', ''QR'', ''SQ'', ''CX'', ''LH'', ''LX'']"

record metrics =
  total_hours :: pyfloat
  stops :: int
  bag_included :: bool
  premium :: bool
  layovers :: "pyfloat list"

definition default_metrics :: metrics where
  "default_metrics =
     \<lparr>total_hours = Fin 0, stops = 0, bag_included = False, premium = False, layovers = []\<rparr>"

fun itin_loop ::
  "json list \<Rightarrow> pyfloat \<times> int \<times> pyfloat list \<Rightarrow> py_error + (pyfloat \<times> int \<times> pyfloat list)" where
  "itin_loop [] acc = Inr acc"
| "itin_loop (itin # its) (total_h, max_stops, lays) =
     py_bind (py_get itin ''segments'' (JArr [])) (\<lambda>segs.
     py_bind (py_len segs) (\<lambda>n.
     py_bind (py_get itin ''duration'' (JStr ''PT0H'')) (\<lambda>d.
     py_bind (parse_duration_hours d) (\<lambda>h.
       itin_loop its
         (pf_add total_h h,
          max max_stops (max 0 (int n - 1)),
          if n > 1 then lays @ [Fin (3 / 2)] else lays)))))"

definition fare_has_bag :: "json \<Rightarrow> py_error + bool" where
  "fare_has_bag f =
     py_bind (py_get f ''includedCheckedBags'' JNull) (\<lambda>inc.
       case inc of
         JObj kvs \<Rightarrow>
           py_bind (py_get inc ''quantity'' JNull) (\<lambda>q.
             py_gt_zero (if py_truthy q then q else JInt 0))
       | _ \<Rightarrow> Inr False)"

fun fare_loop :: "json list \<Rightarrow> bool \<Rightarrow> py_error + bool" where
  "fare_loop [] bag = Inr bag"
| "fare_loop (f # fs) bag =
     py_bind (fare_has_bag f) (\<lambda>b. fare_loop fs (if b then True else bag))"

fun pricing_loop :: "json list \<Rightarrow> bool \<Rightarrow> py_error + bool" where
  "pricing_loop [] bag = Inr bag"
| "pricing_loop (tp # tps) bag =
     py_bind (py_get tp ''fareDetailsBySegment'' (JArr [])) (\<lambda>fds.
     py_bind (py_iter fds) (\<lambda>fs.
     py_bind (fare_loop fs bag) (\<lambda>bag'. pricing_loop tps bag')))"

text \<open>\<open>code in {...}\<close>: lists and dictionaries are unhashable.\<close>

definition in_premium_codes :: "json \<Rightarrow> py_error + bool" where
  "in_premium_codes code =
     (case code of
        JStr s \<Rightarrow> Inr (s \<in> set PREMIUM_CODES)
      | JArr _ \<Rightarrow> Inl TypeError
      | JObj _ \<Rightarrow> Inl TypeError
      | _ \<Rightarrow> Inr False)"

fun premium_any :: "json list \<Rightarrow> py_error + bool" where
  "premium_any [] = Inr False"
| "premium_any (code # codes) =
     py_bind (in_premium_codes code) (\<lambda>b. if b then Inr True else premium_any codes)"

definition offer_locals :: "json \<Rightarrow> py_error + (pyfloat \<times> int \<times> pyfloat list \<times> bool \<times> bool)" where
  "offer_locals offer =
     py_bind (py_get offer ''itineraries'' (JArr [])) (\<lambda>its_v.
     py_bind (py_iter its_v) (\<lambda>its.
     py_bind (itin_loop its (Fin 0, 0, [])) (\<lambda>(total_h, max_stops, lays).
     py_bind (py_get offer ''travelerPricings'' (JArr [])) (\<lambda>tps_v.
     py_bind (py_iter tps_v) (\<lambda>tps.
     py_bind (pricing_loop tps False) (\<lambda>bag.
     py_bind (py_get offer ''validatingAirlineCodes'' (JArr [])) (\<lambda>codes_v.
     py_bind (py_iter codes_v) (\<lambda>codes.
     py_bind (premium_any codes) (\<lambda>prem.
       Inr (total_h, max_stops, lays, bag, prem))))))))))"

definition offer_try :: "json \<Rightarrow> metrics \<Rightarrow> (py_error + bool) \<times> metrics" where
  "offer_try offer m =
     (case offer_locals offer of
        Inl e \<Rightarrow> (Inl e, m)
      | Inr (total_h, max_stops, lays, bag, prem) \<Rightarrow>
          (let m' = m\<lparr>total_hours := total_h, stops := max_stops, bag_included := bag,
                       premium := prem, layovers := lays\<rparr>;
               ok = (max_stops \<le> MAX_STOPS \<and> pf_less total_h MAX_DURATION_HOURS
                     \<and> (\<not> BAGGAGE_REQUIRED \<or> bag))
           in (Inr ok, m')))"

definition offer_meets_rules :: "json \<Rightarrow> bool \<times> metrics" where
  "offer_meets_rules offer =
     (case offer_try offer default_metrics of
        (Inr ok, m) \<Rightarrow> (ok, m)
      | (Inl e, m) \<Rightarrow> (False, m))"

text \<open>
  What the rules are about, read off an offer independently of the loops above: its
  itineraries, the stop count and the hours of an itinerary, the largest stop count, the
  hours accumulated in order, and whether some fare detail of some traveler reports a
  quantity of included checked bags that is greater than 0: the fare detail is a
  dictionary whose entry \<open>includedCheckedBags\<close> is a dictionary whose entry \<open>quantity\<close>
  is a positive number (\<open>True\<close> counts as 1 in Python).
\<close>

definition itineraries_of :: "json \<Rightarrow> json list" where
  "itineraries_of offer =
     (case py_bind (py_get offer ''itineraries'' (JArr [])) py_iter of
        Inr xs \<Rightarrow> xs | Inl _ \<Rightarrow> [])"

definition segment_count :: "json \<Rightarrow> nat" where
  "segment_count itin =
     (case py_bind (py_get itin ''segments'' (JArr [])) py_len of
        Inr n \<Rightarrow> n | Inl _ \<Rightarrow> 0)"

definition stop_count :: "json \<Rightarrow> int" where
  "stop_count itin = max 0 (int (segment_count itin) - 1)"

definition itinerary_hours :: "json \<Rightarrow> pyfloat" where
  "itinerary_hours itin =
     (case py_bind (py_get itin ''duration'' (JStr ''PT0H'')) parse_duration_hours of
        Inr h \<Rightarrow> h | Inl _ \<Rightarrow> Fin 0)"

definition max_stop_count :: "json list \<Rightarrow> int" where
  "max_stop_count its = Max (set (0 # map stop_count its))"

definition accumulated_hours :: "json list \<Rightarrow> pyfloat" where
  "accumulated_hours its = foldl pf_add (Fin 0) (map itinerary_hours its)"

definition pricings_of :: "json \<Rightarrow> json list" where
  "pricings_of offer =
     (case py_bind (py_get offer ''travelerPricings'' (JArr [])) py_iter of
        Inr xs \<Rightarrow> xs | Inl _ \<Rightarrow> [])"

definition fares_of :: "json \<Rightarrow> json list" where
  "fares_of tp =
     (case py_bind (py_get tp ''fareDetailsBySegment'' (JArr [])) py_iter of
        Inr xs \<Rightarrow> xs | Inl _ \<Rightarrow> [])"

definition quantity_positive :: "json \<Rightarrow> bool" where
  "quantity_positive q =
     (case q of
        JInt i \<Rightarrow> 0 < i
      | JFloat x \<Rightarrow> pf_less (Fin 0) x
      | JBool b \<Rightarrow> b
      | _ \<Rightarrow> False)"

definition reports_included_bag :: "json \<Rightarrow> bool" where
  "reports_included_bag f =
     (case f of
        JObj kvs \<Rightarrow>
          (case map_of kvs ''includedCheckedBags'' of
             Some (JObj bag) \<Rightarrow>
               (case map_of bag ''quantity'' of Some q \<Rightarrow> quantity_positive q | None \<Rightarrow> False)
           | _ \<Rightarrow> False)
      | _ \<Rightarrow> False)"

definition some_bag_included :: "json \<Rightarrow> bool" where
  "some_bag_included offer =
     (\<exists>tp \<in> set (pricings_of offer). \<exists>f \<in> set (fares_of tp). reports_included_bag f)"

text \<open>Offers for the examples.\<close>

definition segment :: json where
  "segment = JObj [(''carrierCode'', JStr ''AF'')]"

definition bags :: "int \<Rightarrow> json" where
  "bags q = JObj [(''fareDetailsBySegment'',
                   JArr [JObj [(''includedCheckedBags'', JObj [(''quantity'', JInt q)])]])]"

definition offer_example :: "json list \<Rightarrow> string \<Rightarrow> int \<Rightarrow> string \<Rightarrow> json" where
  "offer_example segs dur q price_total =
     JObj [(''itineraries'',
              JArr [JObj [(''duration'', JStr dur), (''segments'', JArr segs)]]),
           (''travelerPricings'', JArr [bags q]),
           (''validatingAirlineCodes'', JArr [JStr ''TK'']),
           (''price'', JObj [(''total'', JStr price_total), (''currency'', JStr ''EUR'')])]"

text \<open>
  The same offer with \<open>null\<close> for the validating airline codes, which line 196 iterates.
\<close>

definition offer_null_codes :: json where
  "offer_null_codes =
     JObj [(''itineraries'',
              JArr [JObj [(''duration'', JStr ''PT20H''), (''segments'', JArr [segment, segment])]]),
           (''travelerPricings'', JArr [bags 1]),
           (''validatingAirlineCodes'', JNull),
           (''price'', JObj [(''total'', JStr ''680.00''), (''currency'', JStr ''EUR'')])]"

section \<open>The orchestrator\<close>

definition PARIS_AIRPORTS :: "string list" where
  "PARIS_AIRPORTS = [''CDG'', ''ORY'']"

definition OSAKA_AIRPORTS :: "string list" where
  "OSAKA_AIRPORTS = [''KIX'', ''ITM'', ''UKB'']"

definition CEBU_AIRPORT :: string where
  "CEBU_AIRPORT = ''CEB''"

definition THRESHOLD_MAIN :: pyfloat where
  "THRESHOLD_MAIN = Fin 650"

definition EXCEPTION_MIN :: pyfloat where
  "EXCEPTION_MIN = Fin 651"

definition EXCEPTION_MAX :: pyfloat where
  "EXCEPTION_MAX = Fin 700"

definition exceptional_itinerary :: "pyfloat \<Rightarrow> pyfloat list \<Rightarrow> bool \<Rightarrow> bool" where
  "exceptional_itinerary duration_hours lays prem =
     (let short_layover = list_ex (\<lambda>l. pf_le (Fin (3 / 4)) l \<and> pf_le l (Fin (5 / 2))) lays
      in (pf_le (Fin 15) duration_hours \<and> pf_le duration_hours (Fin 18)) \<or> short_layover \<or> prem)"

text \<open>
  \<open>round(x, ndigits)\<close> on a float: the binary64 number \<open>x\<close> is rounded to the nearest
  multiple of \<open>10^-ndigits\<close>, a tie going to the even one, and the result is the binary64
  number nearest to that decimal; the special values are returned as they are. The tie
  is decided on the binary64 number: 18.05 is the number 18.050000000000000710..., so
  that \<open>round(18.05, 1)\<close> is 18.1. The source rounds to one and to two digits.
\<close>

fun py_round :: "pyfloat \<Rightarrow> nat \<Rightarrow> pyfloat" where
  "py_round (Fin x) n =
     (case b64_round x of
        Fin y \<Rightarrow> b64_round (of_int (round_half_even (y * 10 ^ n)) / 10 ^ n)
      | v \<Rightarrow> v)"
| "py_round x n = x"

declare py_round.simps [simp del]

text \<open>\<open>get_price\<close>: the sentinel \<open>1e9\<close> stands for a price that is absent or unreadable.\<close>

definition NO_PRICE :: pyfloat where
  "NO_PRICE = Fin 1000000000"

definition get_price :: "json \<Rightarrow> pyfloat" where
  "get_price offer =
     (case py_bind (py_get offer ''price'' (JObj [])) (\<lambda>p.
           py_bind (py_get p ''total'' (JFloat NO_PRICE)) py_float) of
        Inr v \<Rightarrow> v
      | Inl e \<Rightarrow> NO_PRICE)"

text \<open>\<open>",".join(v)\<close>: every item must be a string.\<close>

fun str_items :: "json list \<Rightarrow> py_error + string list" where
  "str_items [] = Inr []"
| "str_items (JStr s # xs) = py_bind (str_items xs) (\<lambda>ss. Inr (s # ss))"
| "str_items (_ # xs) = Inl TypeError"

definition join_comma :: "string list \<Rightarrow> string" where
  "join_comma ss = (case ss of [] \<Rightarrow> [] | s # r \<Rightarrow> foldl (\<lambda>a b. a @ '','' @ b) s r)"

definition py_join_comma :: "json \<Rightarrow> py_error + string" where
  "py_join_comma v = py_bind (py_iter v) (\<lambda>xs. py_bind (str_items xs) (\<lambda>ss. Inr (join_comma ss)))"

text \<open>
  \<open>compact\<close>: the dictionary it builds is the record \<open>compact_offer\<close>. Price and currency
  stay the JSON values of the offer (\<open>JNull\<close> for \<open>None\<close>); the metrics are those the
  evaluator attached to the offer.
\<close>

record compact_offer =
  c_price :: json
  c_currency :: json
  c_carriers :: string
  c_stops :: int
  c_hours :: pyfloat
  c_bag_included :: bool
  c_premium :: bool

definition compact :: "json \<Rightarrow> metrics \<Rightarrow> py_error + compact_offer" where
  "compact offer m =
     py_bind (py_get offer ''price'' (JObj [])) (\<lambda>p1.
     py_bind (py_get p1 ''total'' JNull) (\<lambda>price.
     py_bind (py_get offer ''price'' (JObj [])) (\<lambda>p2.
     py_bind (py_get p2 ''currency'' JNull) (\<lambda>cur.
     py_bind (py_get offer ''validatingAirlineCodes'' (JArr [])) (\<lambda>codes.
     py_bind (py_join_comma codes) (\<lambda>carriers.
       Inr \<lparr>c_price = price, c_currency = cur, c_carriers = carriers, c_stops = stops m,
            c_hours = py_round (total_hours m) 1, c_bag_included = bag_included m,
            c_premium = premium m\<rparr>))))))"

text \<open>
  \<open>Amadeus.search_offers\<close>, always called with \<open>adults=2\<close>; the currency code comes from
  the environment and is the parameter \<open>cur\<close>.
\<close>

definition search_offers ::
  "server \<Rightarrow> string \<Rightarrow> string \<Rightarrow> string \<Rightarrow> pydate \<Rightarrow> pydate option \<Rightarrow> amadeus
     \<Rightarrow> (py_error + json) \<times> amadeus" where
  "search_offers srv cur origin dest depart ret c =
     (let url = host c @ ''/v2/shopping/flight-offers'';
          ps = [(''originLocationCode'', PStr origin), (''destinationLocationCode'', PStr dest),
                (''departureDate'', PDate depart), (''adults'', PStr ''2''),
                (''currencyCode'', PStr cur), (''max'', PStr ''20'')]
               @ (case ret of Some r \<Rightarrow> [(''returnDate'', PDate r)] | None \<Rightarrow> [])
      in case safe_get srv url ps 6 c of
           (Inl e, c1) \<Rightarrow> (Inl e, c1)
         | (Inr r, c1) \<Rightarrow> (py_bind (response_json r) (\<lambda>j. py_get j ''data'' (JArr [])), c1))"

text \<open>
  The loop over the offers of one search: an offer that passes is kept with its metrics
  (the source stores them in the offer under \<open>_metrics\<close>).
\<close>

fun collect_valid :: "json list \<Rightarrow> (json \<times> metrics) list \<Rightarrow> (json \<times> metrics) list" where
  "collect_valid [] valid = valid"
| "collect_valid (off # offs) valid =
     (case offer_meets_rules off of
        (ok, metr) \<Rightarrow> collect_valid offs (if ok then valid @ [(off, metr)] else valid))"

text \<open>The loop over the airports of one leg, given as (origin, destination) pairs.\<close>

fun search_legs ::
  "server \<Rightarrow> string \<Rightarrow> (string \<times> string) list \<Rightarrow> pydate \<Rightarrow> (json \<times> metrics) list \<Rightarrow> amadeus
     \<Rightarrow> (py_error + (json \<times> metrics) list) \<times> amadeus" where
  "search_legs srv cur [] d valid c = (Inr valid, c)"
| "search_legs srv cur ((origin, dest) # rest) d valid c =
     (case search_offers srv cur origin dest d None c of
        (Inl e, c1) \<Rightarrow> (Inl e, c1)
      | (Inr offers, c1) \<Rightarrow>
          (case py_iter offers of
             Inl e \<Rightarrow> (Inl e, c1)
           | Inr offs \<Rightarrow> search_legs srv cur rest d (collect_valid offs valid) c1))"

text \<open>
  A combination (lines 276 to 283). The two dates are kept as dates; the source stores
  their ISO strings.
\<close>

record combo =
  total :: pyfloat
  currency :: json
  osa_ceb :: compact_offer
  ceb_par :: compact_offer
  date_osa_ceb :: pydate
  date_ceb_par :: pydate

definition make_combo ::
  "string \<Rightarrow> json \<times> metrics \<Rightarrow> json \<times> metrics \<Rightarrow> pydate \<Rightarrow> pydate \<Rightarrow> py_error + combo" where
  "make_combo cur a b d_osaceb d_cebpar =
     (let tot = pf_add (get_price (fst a)) (get_price (fst b)) in
      py_bind (py_get (fst a) ''price'' (JObj [])) (\<lambda>p.
      py_bind (py_get p ''currency'' (JStr cur)) (\<lambda>curr.
      py_bind (compact (fst a) (snd a)) (\<lambda>ca.
      py_bind (compact (fst b) (snd b)) (\<lambda>cb.
        Inr \<lparr>total = py_round tot 2, currency = curr, osa_ceb = ca, ceb_par = cb,
             date_osa_ceb = d_osaceb, date_ceb_par = d_cebpar\<rparr>)))))"

fun combos_inner ::
  "string \<Rightarrow> json \<times> metrics \<Rightarrow> (json \<times> metrics) list \<Rightarrow> pydate \<Rightarrow> pydate \<Rightarrow> combo list
     \<Rightarrow> py_error + combo list" where
  "combos_inner cur a [] d1 d2 acc = Inr acc"
| "combos_inner cur a (b # bs) d1 d2 acc =
     py_bind (make_combo cur a b d1 d2) (\<lambda>cb. combos_inner cur a bs d1 d2 (acc @ [cb]))"

fun combos_outer ::
  "string \<Rightarrow> (json \<times> metrics) list \<Rightarrow> (json \<times> metrics) list \<Rightarrow> pydate \<Rightarrow> pydate \<Rightarrow> combo list
     \<Rightarrow> py_error + combo list" where
  "combos_outer cur [] bs d1 d2 acc = Inr acc"
| "combos_outer cur (a # as) bs d1 d2 acc =
     py_bind (combos_inner cur a bs d1 d2 acc) (\<lambda>acc'. combos_outer cur as bs d1 d2 acc')"

text \<open>The body of the loop over the dates of phase B, and the loop.\<close>

definition phase_b_date ::
  "server \<Rightarrow> string \<Rightarrow> pydate \<Rightarrow> combo list \<Rightarrow> amadeus \<Rightarrow> (py_error + combo list) \<times> amadeus" where
  "phase_b_date srv cur d_osaceb acc c =
     (let d_cebpar = d_osaceb + 14 in
      case search_legs srv cur (map (\<lambda>a. (a, CEBU_AIRPORT)) OSAKA_AIRPORTS) d_osaceb [] c of
        (Inl e, c1) \<Rightarrow> (Inl e, c1)
      | (Inr osa_ceb_valid, c1) \<Rightarrow>
          (case search_legs srv cur (map (\<lambda>p. (CEBU_AIRPORT, p)) PARIS_AIRPORTS) d_cebpar [] c1 of
             (Inl e, c2) \<Rightarrow> (Inl e, c2)
           | (Inr ceb_par_valid, c2) \<Rightarrow>
               (combos_outer cur osa_ceb_valid ceb_par_valid d_osaceb d_cebpar acc, c2)))"

fun phase_b_loop ::
  "server \<Rightarrow> string \<Rightarrow> pydate list \<Rightarrow> combo list \<Rightarrow> amadeus \<Rightarrow> (py_error + combo list) \<times> amadeus" where
  "phase_b_loop srv cur [] acc c = (Inr acc, c)"
| "phase_b_loop srv cur (d # ds) acc c =
     (case phase_b_date srv cur d acc c of
        (Inl e, c1) \<Rightarrow> (Inl e, c1)
      | (Inr acc', c1) \<Rightarrow> phase_b_loop srv cur ds acc' c1)"

definition phase_b :: "server \<Rightarrow> string \<Rightarrow> amadeus \<Rightarrow> (py_error + combo list) \<times> amadeus" where
  "phase_b srv cur c = phase_b_loop srv cur (daterange (date 2026 4 1) (date 2026 4 15)) [] c"

text \<open>
  The alerts (lines 288 to 300), from the two ranked result sets. The reason of the
  direct alert is one of two fixed texts. The reference price of the combo alert is the
  binary64 sum \<open>float(price) + 300.0\<close>, and the total of the combination is compared with
  it as a binary64 number: at a direct price of 1000.07 the sum is
  1300.0700000000002, above the binary64 number 1300.07. The thresholds of the direct
  alert are binary64 numbers themselves, so that a price compares with them as its
  nearest binary64 number does, unless it lies within the rounding error of one of them;
  the direct alert compares the price as it is read.
\<close>

datatype reason = Low_price | Exceptional_band

record alerts =
  osaka :: "(reason \<times> compact_offer) option"
  cebu_combo :: "(combo \<times> pyfloat) option"

definition osaka_alert :: "compact_offer list \<Rightarrow> py_error + (reason \<times> compact_offer) option" where
  "osaka_alert top3_osaka =
     (case top3_osaka of
        [] \<Rightarrow> Inr None
      | best # _ \<Rightarrow>
          py_bind (py_float (c_price best)) (\<lambda>price.
            if pf_le price THRESHOLD_MAIN then Inr (Some (Low_price, best))
            else if pf_le EXCEPTION_MIN price \<and> pf_le price EXCEPTION_MAX
                    \<and> exceptional_itinerary (c_hours best) [] (c_premium best)
            then Inr (Some (Exceptional_band, best))
            else Inr None))"

definition combo_alert ::
  "combo list \<Rightarrow> compact_offer list \<Rightarrow> py_error + (combo \<times> pyfloat) option" where
  "combo_alert top3_cebu top3_osaka =
     (case (top3_cebu, top3_osaka) of
        (cb # _, best # _) \<Rightarrow>
          py_bind (py_float (c_price best)) (\<lambda>price.
            let ref = b64_add price (Fin 300) in
            if pf_less (to_b64 (total cb)) ref then Inr (Some (cb, ref)) else Inr None)
      | _ \<Rightarrow> Inr None)"

definition derive_alerts :: "compact_offer list \<Rightarrow> combo list \<Rightarrow> py_error + alerts" where
  "derive_alerts top3_osaka top3_cebu =
     py_bind (osaka_alert top3_osaka) (\<lambda>a.
     py_bind (combo_alert top3_cebu top3_osaka) (\<lambda>b.
       Inr \<lparr>osaka = a, cebu_combo = b\<rparr>))"

text \<open>
  The price of a compacted leg as \<open>get_price\<close> reads it from the offer, and values for
  the examples.
\<close>

definition price_of :: "compact_offer \<Rightarrow> pyfloat" where
  "price_of leg = (case py_float (c_price leg) of Inr v \<Rightarrow> v | Inl e \<Rightarrow> NO_PRICE)"

definition best_example :: "string \<Rightarrow> pyfloat \<Rightarrow> bool \<Rightarrow> compact_offer" where
  "best_example p h prem =
     \<lparr>c_price = JStr p, c_currency = JStr ''EUR'', c_carriers = ''TK'', c_stops = 1,
      c_hours = h, c_bag_included = True, c_premium = prem\<rparr>"

definition combo_example :: "real \<Rightarrow> combo" where
  "combo_example t =
     \<lparr>total = Fin t, currency = JStr ''EUR'',
      osa_ceb = best_example ''400.00'' (Fin 5) False,
      ceb_par = best_example ''450.00'' (Fin 18) False,
      date_osa_ceb = date 2026 4 1, date_ceb_par = date 2026 4 15\<rparr>"

definition srv_cheap :: server where
  "srv_cheap =
     srv_always \<lparr>status_code = 200, retry_after = None,
       json_body = Some (JObj [(''data'', JArr [offer_example [segment] ''PT20H'' 1 ''0.001''])])\<rparr>"

text \<open>
  The invariant of a combination built for a date of the window, and the offer, its
  metrics, its compacted form and the combination that the service \<open>srv_cheap\<close> leads to.
\<close>

definition combo_ok :: "pydate list \<Rightarrow> combo \<Rightarrow> bool" where
  "combo_ok window cb \<longleftrightarrow>
     total cb = py_round (pf_add (price_of (osa_ceb cb)) (price_of (ceb_par cb))) 2
     \<and> date_ceb_par cb = date_osa_ceb cb + 14
     \<and> date_osa_ceb cb \<in> set window"

definition leg_cheap :: json where
  "leg_cheap = offer_example [segment] ''PT20H'' 1 ''0.001''"

definition leg_metrics :: metrics where
  "leg_metrics = \<lparr>total_hours = Fin 20, stops = 0, bag_included = True, premium = False,
                   layovers = []\<rparr>"

definition leg_compact :: compact_offer where
  "leg_compact = \<lparr>c_price = JStr ''0.001'', c_currency = JStr ''EUR'', c_carriers = ''TK'',
                   c_stops = 0, c_hours = Fin 20, c_bag_included = True, c_premium = False\<rparr>"

definition combo_cheap :: "pydate \<Rightarrow> combo" where
  "combo_cheap d = \<lparr>total = Fin 0, currency = JStr ''EUR'', osa_ceb = leg_compact,
                     ceb_par = leg_compact, date_osa_ceb = d, date_ceb_par = d + 14\<rparr>"

section \<open>Verification\<close>

subsection \<open>Properties of the date-pair generator\<close>

lemma date_2026_01: "date 2026 1 d = 739616 + d"
  by (simp add: date_def days_before_year_def days_before_month_def)

lemma date_2026_04: "date 2026 4 d = 739706 + d"
  by (simp add: date_def days_before_year_def days_before_month_def
      days_in_month_tab_def is_leap_def)

lemma daterange_upto: "daterange s e = [s .. e]"
proof (cases "s \<le> e")
  case False
  then show ?thesis by (simp add: daterange_def)
next
  case True
  have "map (\<lambda>n. s + int n) [0 ..< k] = [s .. s + int k - 1]" for k
  proof (induction k)
    case 0
    show ?case by simp
  next
    case (Suc k)
    have "[s .. s + int (Suc k) - 1] = [s .. s + int k - 1] @ [s + int k]"
      using upto_rec2 [of s "s + int k"] by (simp add: add.commute)
    with Suc show ?case by simp
  qed
  from this [of "nat (e - s + 1)"] True show ?thesis
    by (simp add: daterange_def)
qed

lemma exact90_loop_filter:
  "exact90_loop ds pairs =
     pairs @ [(d0, d0 + 90). d0 \<leftarrow> ds, date 2026 4 1 \<le> d0 + 90 \<and> d0 + 90 \<le> date 2026 4 15]"
  by (induction ds arbitrary: pairs) (simp_all add: Let_def)

text \<open>
  C3: the generator yields, in ascending order of \<open>d0\<close>, exactly the pairs
  \<open>(d0, d0 + 90 days)\<close> for \<open>d0\<close> in the inclusive window 2026-01-01 .. 2026-01-15 whose
  \<open>d0 + 90 days\<close> lies in the inclusive window 2026-04-01 .. 2026-04-15; for the configured
  windows these are the 15 pairs (2026-01-(1+k), 2026-04-(1+k)), k = 0..14, so every start
  date qualifies.
\<close>

theorem C3_exact90_pairs:
  "generate_paris_osaka_exact90_pairs =
     [(d0, d0 + 90). d0 \<leftarrow> [date 2026 1 1 .. date 2026 1 15],
        date 2026 4 1 \<le> d0 + 90 \<and> d0 + 90 \<le> date 2026 4 15]
   \<and> generate_paris_osaka_exact90_pairs =
       map (\<lambda>k. (date 2026 1 (1 + int k), date 2026 4 (1 + int k))) [0 ..< 15]
   \<and> length generate_paris_osaka_exact90_pairs = 15
   \<and> map fst generate_paris_osaka_exact90_pairs = [date 2026 1 1 .. date 2026 1 15]
   \<and> sorted (map fst generate_paris_osaka_exact90_pairs)"
proof -
  have gen: "generate_paris_osaka_exact90_pairs =
     [(d0, d0 + 90). d0 \<leftarrow> [date 2026 1 1 .. date 2026 1 15],
        date 2026 4 1 \<le> d0 + 90 \<and> d0 + 90 \<le> date 2026 4 15]"
    by (simp add: generate_paris_osaka_exact90_pairs_def exact90_loop_filter daterange_upto
        DEPART_WINDOW_START_def DEPART_WINDOW_END_def)
  have val: "generate_paris_osaka_exact90_pairs =
       map (\<lambda>k. (date 2026 1 (1 + int k), date 2026 4 (1 + int k))) [0 ..< 15]"
    unfolding gen date_2026_01 date_2026_04
    by (simp add: upto_rec1 upt_rec numeral_eq_Suc)
  have fsts: "map fst generate_paris_osaka_exact90_pairs = [date 2026 1 1 .. date 2026 1 15]"
    unfolding val date_2026_01
    by (simp add: upto_rec1 upt_rec numeral_eq_Suc)
  have len: "length generate_paris_osaka_exact90_pairs = 15"
    unfolding val by simp
  have srt: "sorted (map fst generate_paris_osaka_exact90_pairs)"
    unfolding fsts by simp
  show ?thesis
    by (intro conjI gen val len fsts srt)
qed

text \<open>C3, instance: the first and the last pair of the generator.\<close>

theorem C3_exact90_pairs_witness:
  "hd generate_paris_osaka_exact90_pairs = (date 2026 1 1, date 2026 4 1)
   \<and> last generate_paris_osaka_exact90_pairs = (date 2026 1 15, date 2026 4 15)"
proof -
  have val: "generate_paris_osaka_exact90_pairs =
       map (\<lambda>k. (date 2026 1 (1 + int k), date 2026 4 (1 + int k))) [0 ..< 15]"
    using C3_exact90_pairs by blast
  show ?thesis
    unfolding val by (simp add: upt_rec numeral_eq_Suc)
qed

subsection \<open>Properties of the binary64 rounding\<close>

lemma bit_length_numeral:
  "bit_length 0 = 0"
  "bit_length (Suc 0) = Suc 0"
  "bit_length (numeral (Num.Bit0 k)) = Suc (bit_length (numeral k))"
  "bit_length (numeral (Num.Bit1 k)) = Suc (bit_length (numeral k))"
proof -
  show "bit_length 0 = 0" by (simp add: bit_length.simps)
  show "bit_length (Suc 0) = Suc 0" by (simp add: bit_length.simps)
  show "bit_length (numeral (Num.Bit0 k)) = Suc (bit_length (numeral k))"
    by (subst bit_length.simps) (simp add: numeral_Bit0_div_2)
  show "bit_length (numeral (Num.Bit1 k)) = Suc (bit_length (numeral k))"
    by (subst bit_length.simps) (simp add: numeral_Bit1_div_2)
qed

lemmas b64_eval =
  b64_round_def b64_ulp_def binexp_def bit_length_numeral pow2_def round_half_even_def Let_def

lemma bit_length_bounds:
  "0 < n \<Longrightarrow> 2 ^ (bit_length n - 1) \<le> n \<and> n < 2 ^ bit_length n"
proof (induction n rule: bit_length.induct)
  case (1 n)
  show ?case
  proof (cases "n div 2 = 0")
    case True
    with 1(2) have "n = 1" by (cases n) auto
    then show ?thesis by (simp add: bit_length_numeral)
  next
    case False
    then have pos: "0 < n div 2" by simp
    from 1(1) [OF _ pos] 1(2)
    have ih: "2 ^ (bit_length (n div 2) - 1) \<le> n div 2" "n div 2 < 2 ^ bit_length (n div 2)"
      by simp_all
    have bl: "bit_length n = Suc (bit_length (n div 2))"
      using 1(2) by (subst bit_length.simps) simp
    have p: "0 < bit_length (n div 2)"
      using pos by (subst bit_length.simps) simp
    have a: "2 ^ (bit_length n - 1) \<le> n"
    proof -
      have "(2::nat) ^ (bit_length n - 1) = 2 * 2 ^ (bit_length (n div 2) - 1)"
        using p by (simp add: bl power_eq_if)
      also have "\<dots> \<le> 2 * (n div 2)" using ih(1) by simp
      also have "\<dots> \<le> n" by simp
      finally show ?thesis .
    qed
    have b: "n < 2 ^ bit_length n"
    proof -
      have "n div 2 + 1 \<le> 2 ^ bit_length (n div 2)" using ih(2) by simp
      then have "2 * (n div 2) + 2 \<le> 2 * 2 ^ bit_length (n div 2)" by simp
      moreover have "n < 2 * (n div 2) + 2" by presburger
      ultimately show ?thesis by (simp add: bl)
    qed
    from a b show ?thesis by simp
  qed
qed

lemma binexp_bounds:
  assumes "0 < x"
  shows "pow2 (binexp x) \<le> x \<and> x < pow2 (binexp x + 1)"
proof (cases "1 \<le> x")
  case True
  define n where "n = nat \<lfloor>x\<rfloor>"
  have n: "0 < n" "real n \<le> x" "x < real n + 1"
  proof -
    have f: "1 \<le> \<lfloor>x\<rfloor>" using True by linarith
    then show "0 < n" by (simp add: n_def)
    have r: "real n = of_int \<lfloor>x\<rfloor>" using f by (simp add: n_def)
    show "real n \<le> x" "x < real n + 1" unfolding r by linarith+
  qed
  note b = bit_length_bounds [OF n(1)]
  have be: "binexp x = int (bit_length n) - 1"
    using True by (simp add: binexp_def n_def)
  have p: "0 < bit_length n" using n(1) by (subst bit_length.simps) simp
  have lo: "pow2 (binexp x) = 2 ^ (bit_length n - 1)"
    using p by (simp add: be pow2_def nat_diff_distrib')
  have hi: "pow2 (binexp x + 1) = 2 ^ bit_length n"
    by (simp add: be pow2_def)
  have "real ((2::nat) ^ (bit_length n - 1)) \<le> real n" using b by (simp only: of_nat_le_iff)
  then have "(2::real) ^ (bit_length n - 1) \<le> real n" by simp
  then have 1: "pow2 (binexp x) \<le> x" unfolding lo using n(2) by (rule order_trans)
  have "n + 1 \<le> 2 ^ bit_length n" using b by simp
  then have "real (n + 1) \<le> real ((2::nat) ^ bit_length n)" by (simp only: of_nat_le_iff)
  then have "real n + 1 \<le> (2::real) ^ bit_length n" by simp
  with n(3) have 2: "x < pow2 (binexp x + 1)" unfolding hi by (rule less_le_trans)
  from 1 2 show ?thesis by simp
next
  case False
  define y where "y = 1 / x"
  have y: "1 < y" using assms False by (simp add: y_def)
  define m where "m = nat (\<lceil>y\<rceil> - 1)"
  have c: "2 \<le> \<lceil>y\<rceil>" using y by linarith
  have m: "0 < m" "real m < y" "y \<le> real m + 1"
  proof -
    show "0 < m" using c by (simp add: m_def)
    have r: "real m = of_int \<lceil>y\<rceil> - 1" using c by (simp add: m_def)
    show "real m < y" "y \<le> real m + 1" unfolding r by linarith+
  qed
  note b = bit_length_bounds [OF m(1)]
  define k where "k = bit_length m"
  have k: "0 < k" unfolding k_def using m(1) by (subst bit_length.simps) simp
  have be: "binexp x = - int k"
    using False by (simp add: binexp_def m_def y_def k_def)
  have lo: "pow2 (binexp x) = 1 / 2 ^ k"
    using k by (simp add: be pow2_def)
  have hi: "pow2 (binexp x + 1) = 1 / 2 ^ (k - 1)"
  proof (cases "k = 1")
    case True
    then show ?thesis by (simp add: be pow2_def)
  next
    case False
    with k have "1 < k" by simp
    then have "nat (int k - 1) = k - 1" by simp
    then show ?thesis using \<open>1 < k\<close> by (simp add: be pow2_def)
  qed
  have "m + 1 \<le> 2 ^ k" using b by (simp add: k_def)
  then have "real (m + 1) \<le> real ((2::nat) ^ k)" by (simp only: of_nat_le_iff)
  then have "real m + 1 \<le> (2::real) ^ k" by simp
  with m(3) have "y \<le> 2 ^ k" by (rule order_trans)
  then have 1: "pow2 (binexp x) \<le> x"
    unfolding lo using assms by (simp add: y_def field_simps)
  have "real ((2::nat) ^ (k - 1)) \<le> real m" using b by (simp only: of_nat_le_iff k_def)
  then have "(2::real) ^ (k - 1) \<le> real m" by simp
  then have "2 ^ (k - 1) < y" using m(2) by (rule le_less_trans)
  then have 2: "x < pow2 (binexp x + 1)"
    unfolding hi using assms by (simp add: y_def field_simps)
  from 1 2 show ?thesis by simp
qed

lemma pow2_pos: "0 < pow2 e"
  by (simp add: pow2_def)

lemma round_half_even_near: "\<bar>of_int (round_half_even y) - y\<bar> \<le> 1 / 2"
  unfolding round_half_even_def Let_def by (auto simp: abs_le_iff)

text \<open>
  The rounded number is a multiple of the unit in the last place of its argument, and
  lies within half a unit of it.
\<close>

lemma b64_round_near:
  assumes "b64_round x = Fin r"
  shows "\<bar>r - x\<bar> \<le> b64_ulp \<bar>x\<bar> / 2"
    and "\<exists>n. r = of_int n * b64_ulp \<bar>x\<bar>"
proof -
  define u where "u = b64_ulp \<bar>x\<bar>"
  define n where "n = round_half_even (\<bar>x\<bar> / u)"
  have u: "0 < u" by (simp add: u_def b64_ulp_def pow2_pos)
  have r: "r = (if x < 0 then - (of_int n * u) else of_int n * u)"
  proof (cases "x = 0")
    case True
    have "round_half_even 0 = 0" by (simp add: round_half_even_def)
    with True assms show ?thesis by (simp add: b64_round_def n_def)
  next
    case False
    have eq: "b64_round x =
        (if 2 ^ 1024 \<le> of_int n * u then (if x < 0 then NInf else PInf)
         else Fin (if x < 0 then - (of_int n * u) else of_int n * u))"
      unfolding b64_round_def Let_def n_def u_def using False by (simp only: if_False)
    show ?thesis
    proof (cases "(2::real) ^ 1024 \<le> of_int n * u")
      case True
      with eq have "b64_round x = (if x < 0 then NInf else PInf)" by (simp only: if_True)
      with assms have "Fin r = (if x < 0 then NInf else PInf)" by (simp only:)
      then show ?thesis by (cases "x < 0") simp_all
    next
      case False
      with eq have "b64_round x = Fin (if x < 0 then - (of_int n * u) else of_int n * u)"
        by (simp only: if_False)
      with assms have "Fin r = Fin (if x < 0 then - (of_int n * u) else of_int n * u)"
        by (simp only:)
      then show ?thesis by (simp only: pyfloat.inject)
    qed
  qed
  have "\<bar>of_int n - \<bar>x\<bar> / u\<bar> \<le> 1 / 2"
    unfolding n_def by (rule round_half_even_near)
  then have "\<bar>of_int n - \<bar>x\<bar> / u\<bar> * u \<le> 1 / 2 * u"
    using u by (intro mult_right_mono) simp_all
  moreover have "\<bar>of_int n - \<bar>x\<bar> / u\<bar> * u = \<bar>of_int n * u - \<bar>x\<bar>\<bar>"
  proof -
    have "\<bar>of_int n - \<bar>x\<bar> / u\<bar> * u = \<bar>(of_int n - \<bar>x\<bar> / u) * u\<bar>"
      using u by (simp add: abs_mult)
    also have "(of_int n - \<bar>x\<bar> / u) * u = of_int n * u - \<bar>x\<bar>"
      using u by (simp add: left_diff_distrib)
    finally show ?thesis .
  qed
  ultimately have near: "\<bar>of_int n * u - \<bar>x\<bar>\<bar> \<le> u / 2" by simp
  show "\<bar>r - x\<bar> \<le> b64_ulp \<bar>x\<bar> / 2"
  proof (cases "x < 0")
    case True
    then have "\<bar>r - x\<bar> = \<bar>of_int n * u - \<bar>x\<bar>\<bar>"
      unfolding r by simp
    with near show ?thesis by (simp add: u_def)
  next
    case False
    then have "\<bar>r - x\<bar> = \<bar>of_int n * u - \<bar>x\<bar>\<bar>"
      unfolding r by simp
    with near show ?thesis by (simp add: u_def)
  qed
  show "\<exists>n. r = of_int n * b64_ulp \<bar>x\<bar>"
    unfolding u_def [symmetric] r
    by (cases "x < 0") (auto intro: exI [of _ "- n"] exI [of _ n])
qed

lemma b64_round_values:
  "b64_round 20 = Fin 20"
  "b64_round 300 = Fin 300"
  "b64_round 850 = Fin 850"
  "b64_round 900 = Fin 900"
  "b64_round 950 = Fin 950"
  "b64_round 600 = Fin 600"
  "b64_round (1 / 500) = Fin (1152921504606847 / 576460752303423488)"
  "b64_round (100007 / 100) = Fin (8796708748719555 / 8796093022208)"
  "b64_round (130007 / 100) = Fin (5717768327690977 / 4398046511104)"
  "b64_round (8796708748719555 / 8796093022208 + 300) = Fin (2858884163845489 / 2199023255552)"
  by (simp_all add: b64_eval)

subsection \<open>Properties of the client\<close>

lemma headers_cached: "py_truthy (token c) \<Longrightarrow> headers srv c = (Inr (Bearer (token c)), c)"
  by (simp add: headers_def)

lemma safe_get_loop_retry:
  assumes tok: "py_truthy (token c)"
    and st: "status_code (get_response srv url ps c 0) = 429"
    and le: "int (Suc attempt) \<le> max_retries"
    and w: "0 \<le> wait_seconds (Suc attempt) (get_response srv url ps c 0)"
  shows "safe_get_loop srv url ps max_retries attempt c =
         safe_get_loop srv url ps max_retries (Suc attempt)
           (c\<lparr>gets := Suc (gets c),
              slept := slept c @ [wait_seconds (Suc attempt) (get_response srv url ps c 0)]\<rparr>)"
  using st le w
  by (subst safe_get_loop.simps)
     (simp add: headers_cached [OF tok] get_response_def sleep_def Let_def)

lemma safe_get_loop_exhausted:
  assumes tok: "py_truthy (token c)"
    and st: "status_code (get_response srv url ps c 0) = 429"
    and gt: "int (Suc attempt) > max_retries"
  shows "safe_get_loop srv url ps max_retries attempt c =
         (Inl (HTTPError 429), c\<lparr>gets := Suc (gets c)\<rparr>)"
  using st gt
  by (subst safe_get_loop.simps)
     (simp add: headers_cached [OF tok] get_response_def raise_for_status_def Let_def)

lemma safe_get_loop_final:
  assumes tok: "py_truthy (token c)"
    and st: "status_code (get_response srv url ps c 0) \<noteq> 429"
  shows "safe_get_loop srv url ps max_retries attempt c =
         (case raise_for_status (get_response srv url ps c 0) of
            Inl e \<Rightarrow> Inl e | Inr _ \<Rightarrow> Inr (get_response srv url ps c 0),
          c\<lparr>gets := Suc (gets c)\<rparr>)"
  using st
  by (subst safe_get_loop.simps)
     (simp add: headers_cached [OF tok] get_response_def Let_def split: sum.splits)

lemma safe_get_loop_steps:
  assumes tok: "py_truthy (token c)"
    and st: "\<forall>i<k. status_code (get_response srv url ps c i) = 429
               \<and> 0 \<le> wait_seconds (attempt + i + 1) (get_response srv url ps c i)"
    and le: "int (attempt + k) \<le> max_retries"
  shows "safe_get_loop srv url ps max_retries attempt c =
         safe_get_loop srv url ps max_retries (attempt + k)
           (c\<lparr>gets := gets c + k, slept := slept c @ waits srv url ps c attempt k\<rparr>)"
  using st le
proof (induction k)
  case 0
  show ?case by (simp add: waits_def)
next
  case (Suc k)
  let ?c = "c\<lparr>gets := gets c + k, slept := slept c @ waits srv url ps c attempt k\<rparr>"
  have tok': "py_truthy (token ?c)" using tok by simp
  have resp: "get_response srv url ps (c\<lparr>gets := gets c + k, slept := s\<rparr>) 0
      = get_response srv url ps c k" for s
    by (simp add: get_response_def)
  have "safe_get_loop srv url ps max_retries attempt c =
        safe_get_loop srv url ps max_retries (attempt + k) ?c"
    using Suc by simp
  also have "\<dots> = safe_get_loop srv url ps max_retries (Suc (attempt + k))
      (?c\<lparr>gets := Suc (gets ?c),
          slept := slept ?c @ [wait_seconds (Suc (attempt + k)) (get_response srv url ps ?c 0)]\<rparr>)"
    using Suc.prems by (intro safe_get_loop_retry [OF tok']) (simp_all add: resp)
  also have "(?c\<lparr>gets := Suc (gets ?c),
          slept := slept ?c @ [wait_seconds (Suc (attempt + k)) (get_response srv url ps ?c 0)]\<rparr>)
      = c\<lparr>gets := gets c + Suc k, slept := slept c @ waits srv url ps c attempt (Suc k)\<rparr>"
    by (simp add: resp waits_def)
  finally show ?case by simp
qed

lemma py_int_empty: "py_int [] = Inl ValueError"
  by (simp add: py_int_def split_sign_def py_strip_def digitpart_def)

lemma wait_seconds_eq:
  "wait_seconds a r =
     (case retry_after r of
        None \<Rightarrow> min 60 (2 ^ a)
      | Some ra \<Rightarrow> (case py_int ra of Inr n \<Rightarrow> min 60 n | Inl e \<Rightarrow> min 60 (2 ^ a)))"
  by (simp add: wait_seconds_def backoff_def py_int_empty split: option.splits sum.splits)

lemma safe_get_outcome:
  assumes tok: "py_truthy (token c)"
    and st: "\<forall>i<k. status_code (get_response srv url ps c i) = 429
               \<and> 0 \<le> wait_seconds (i + 1) (get_response srv url ps c i)"
    and le: "int k \<le> max_retries"
    and fin: "status_code (get_response srv url ps c k) \<noteq> 429"
  shows "safe_get srv url ps max_retries c =
         (if 400 \<le> status_code (get_response srv url ps c k)
              \<and> status_code (get_response srv url ps c k) < 600
          then Inl (HTTPError (status_code (get_response srv url ps c k)))
          else Inr (get_response srv url ps c k),
          c\<lparr>gets := gets c + k + 1, slept := slept c @ waits srv url ps c 0 k\<rparr>)"
proof -
  let ?c = "c\<lparr>gets := gets c + k, slept := slept c @ waits srv url ps c 0 k\<rparr>"
  have resp: "get_response srv url ps ?c 0 = get_response srv url ps c k"
    by (simp add: get_response_def)
  have tok': "py_truthy (token ?c)" using tok by simp
  have "safe_get srv url ps max_retries c = safe_get_loop srv url ps max_retries (0 + k) ?c"
    unfolding safe_get_def using st le by (intro safe_get_loop_steps [OF tok]) simp_all
  also have "\<dots> = (case raise_for_status (get_response srv url ps ?c 0) of
            Inl e \<Rightarrow> Inl e | Inr _ \<Rightarrow> Inr (get_response srv url ps ?c 0),
          ?c\<lparr>gets := Suc (gets ?c)\<rparr>)"
  proof -
    have "status_code (get_response srv url ps ?c 0) \<noteq> 429"
      unfolding resp by (rule fin)
    then show ?thesis by (rule safe_get_loop_final [OF tok'])
  qed
  finally show ?thesis
    by (simp add: resp raise_for_status_def)
qed

lemma safe_get_gives_up:
  assumes tok: "py_truthy (token c)"
    and st: "\<forall>i<k. status_code (get_response srv url ps c i) = 429
               \<and> 0 \<le> wait_seconds (i + 1) (get_response srv url ps c i)"
    and le: "int k = max_retries"
    and fin: "status_code (get_response srv url ps c k) = 429"
  shows "safe_get srv url ps max_retries c =
         (Inl (HTTPError 429),
          c\<lparr>gets := gets c + k + 1, slept := slept c @ waits srv url ps c 0 k\<rparr>)"
proof -
  let ?c = "c\<lparr>gets := gets c + k, slept := slept c @ waits srv url ps c 0 k\<rparr>"
  have resp: "get_response srv url ps ?c 0 = get_response srv url ps c k"
    by (simp add: get_response_def)
  have tok': "py_truthy (token ?c)" using tok by simp
  have "safe_get srv url ps max_retries c = safe_get_loop srv url ps max_retries (0 + k) ?c"
    unfolding safe_get_def using st le by (intro safe_get_loop_steps [OF tok]) simp_all
  also have "\<dots> = (Inl (HTTPError 429), ?c\<lparr>gets := Suc (gets ?c)\<rparr>)"
  proof -
    have st': "status_code (get_response srv url ps ?c 0) = 429"
      unfolding resp by (rule fin)
    have gt: "max_retries < int (Suc (0 + k))"
      using le by simp
    show ?thesis by (rule safe_get_loop_exhausted [OF tok' st' gt])
  qed
  finally show ?thesis
    by simp
qed

lemma headers_result:
  assumes "headers srv c = (Inr h, c1)"
  shows "h = Bearer (token c1)"
  using assms by (auto simp: headers_def split: if_splits prod.splits sum.splits)

lemma safe_get_loop_after_auth:
  assumes h: "headers srv c = (Inr h, c1)" and tok: "py_truthy (token c1)"
  shows "safe_get_loop srv url ps max_retries attempt c
         = safe_get_loop srv url ps max_retries attempt c1"
proof -
  have h1: "headers srv c1 = (Inr h, c1)"
    using headers_cached [OF tok] headers_result [OF h] by simp
  show ?thesis
    by (subst safe_get_loop.simps, subst (2) safe_get_loop.simps) (simp only: h h1)
qed

text \<open>
  C1 (amended): let the client hold a token, or obtain one by a successful
  authentication (\<open>c1\<close> is the client when the first request is sent). For every sequence
  of responses to the GET request: if the first \<open>k\<close> responses are 429, the client sleeps
  after the \<open>i\<close>-th of them (counted from 1) \<open>min(60, n)\<close> seconds when the Retry-After
  header is present and parses as an integer \<open>n\<close>, this \<open>n\<close> being non-negative, otherwise
  \<open>min(60, 2^i)\<close> seconds, and retries. If \<open>k \<le> max_retries\<close> and the next response is not
  429, the call fails with that status when it is a 4xx or 5xx status and returns the
  response otherwise; if \<open>k = max_retries\<close> and the next response is again 429, the call
  fails with status 429. In both cases \<open>k + 1\<close> requests were sent and exactly the \<open>k\<close>
  durations were slept.
\<close>

theorem C1_retry_policy:
  assumes "headers srv c = (Inr h, c1)" and "py_truthy (token c1)"
    and "\<forall>i<k. status_code (get_response srv url ps c1 i) = 429
               \<and> 0 \<le> wait_seconds (i + 1) (get_response srv url ps c1 i)"
  shows "(int k \<le> max_retries \<and> status_code (get_response srv url ps c1 k) \<noteq> 429 \<longrightarrow>
           safe_get srv url ps max_retries c =
             (if 400 \<le> status_code (get_response srv url ps c1 k)
                  \<and> status_code (get_response srv url ps c1 k) < 600
              then Inl (HTTPError (status_code (get_response srv url ps c1 k)))
              else Inr (get_response srv url ps c1 k),
              c1\<lparr>gets := gets c1 + k + 1,
                slept := slept c1 @ map (\<lambda>i. wait_seconds (i + 1) (get_response srv url ps c1 i)) [0 ..< k]\<rparr>))
       \<and> (int k = max_retries \<and> status_code (get_response srv url ps c1 k) = 429 \<longrightarrow>
           safe_get srv url ps max_retries c =
             (Inl (HTTPError 429),
              c1\<lparr>gets := gets c1 + k + 1,
                slept := slept c1 @ map (\<lambda>i. wait_seconds (i + 1) (get_response srv url ps c1 i)) [0 ..< k]\<rparr>))
       \<and> (\<forall>a r. wait_seconds a r =
             (case retry_after r of
                None \<Rightarrow> min 60 (2 ^ a)
              | Some ra \<Rightarrow> (case py_int ra of Inr n \<Rightarrow> min 60 n | Inl e \<Rightarrow> min 60 (2 ^ a))))"
proof -
  have start: "safe_get srv url ps max_retries c = safe_get srv url ps max_retries c1"
    unfolding safe_get_def by (rule safe_get_loop_after_auth [OF assms(1,2)])
  show ?thesis
  proof (intro conjI impI allI)
    assume "int k \<le> max_retries \<and> status_code (get_response srv url ps c1 k) \<noteq> 429"
    then show "safe_get srv url ps max_retries c =
             (if 400 \<le> status_code (get_response srv url ps c1 k)
                  \<and> status_code (get_response srv url ps c1 k) < 600
              then Inl (HTTPError (status_code (get_response srv url ps c1 k)))
              else Inr (get_response srv url ps c1 k),
              c1\<lparr>gets := gets c1 + k + 1,
                slept := slept c1 @ map (\<lambda>i. wait_seconds (i + 1) (get_response srv url ps c1 i)) [0 ..< k]\<rparr>)"
      unfolding start
      using safe_get_outcome [OF assms(2,3), of max_retries] by (simp add: waits_def)
  next
    assume "int k = max_retries \<and> status_code (get_response srv url ps c1 k) = 429"
    then show "safe_get srv url ps max_retries c =
             (Inl (HTTPError 429),
              c1\<lparr>gets := gets c1 + k + 1,
                slept := slept c1 @ map (\<lambda>i. wait_seconds (i + 1) (get_response srv url ps c1 i)) [0 ..< k]\<rparr>)"
      unfolding start
      using safe_get_gives_up [OF assms(2,3), of max_retries] by (simp add: waits_def)
  next
    fix a r
    show "wait_seconds a r =
             (case retry_after r of
                None \<Rightarrow> min 60 (2 ^ a)
              | Some ra \<Rightarrow> (case py_int ra of Inr n \<Rightarrow> min 60 n | Inl e \<Rightarrow> min 60 (2 ^ a)))"
      by (rule wait_seconds_eq)
  qed
qed

text \<open>
  C1, instance: a client without a token authenticates; then three 429 responses without Retry-After
  and a 200, with the default of 6 retries: one successful return, four requests, sleeps
  of 2, 4 and 8 seconds.
\<close>

theorem C1_retry_policy_witness:
  "safe_get srv_three_429 ''u'' [] 6 client_fresh =
     (Inr resp_200, client0\<lparr>gets := 4, slept := [2, 4, 8]\<rparr>)"
proof -
  have hd: "headers srv_three_429 client_fresh = (Inr (Bearer (JStr ''tok'')), client0)"
    by (simp add: headers_def client_fresh_def py_truthy_def auth_def srv_three_429_def
        resp_token_def raise_for_status_def response_json_def py_get_def client0_def)
  have tok: "py_truthy (token client0)"
    by (simp add: client0_def py_truthy_def)
  have R: "get_response srv_three_429 ''u'' [] client0 i = (if i < 3 then resp_429 None else resp_200)" for i
    by (simp add: get_response_def srv_three_429_def client0_def)
  have pre: "\<forall>i<3. status_code (get_response srv_three_429 ''u'' [] client0 i) = 429
               \<and> 0 \<le> wait_seconds (i + 1) (get_response srv_three_429 ''u'' [] client0 i)"
    by (simp add: R resp_429_def wait_seconds_def backoff_def)
  have "safe_get srv_three_429 ''u'' [] 6 client_fresh =
     (Inr resp_200,
      client0\<lparr>gets := gets client0 + 3 + 1,
        slept := slept client0 @ map (\<lambda>i. wait_seconds (i + 1) (get_response srv_three_429 ''u'' [] client0 i)) [0 ..< 3]\<rparr>)"
    using C1_retry_policy [OF hd tok pre, of 6]
    by (simp add: R resp_200_def resp_429_def)
  also have "map (\<lambda>i. wait_seconds (i + 1) (get_response srv_three_429 ''u'' [] client0 i)) [0 ..< 3]
      = [2, 4, 8]"
    by (simp add: R upt_rec numeral_eq_Suc resp_429_def wait_seconds_def backoff_def)
  finally show ?thesis
    by (simp add: client0_def)
qed

text \<open>
  C1, counterexample: a 429 response whose Retry-After header is \<open>-5\<close>: the header is present and parses as
  an integer, but the client neither sleeps nor retries; \<open>time.sleep\<close> raises. A response
  with status 304: the call returns it.
\<close>

theorem C1_negative_retry_after_counterexample:
  "py_int ''-5'' = Inr (- 5)
   \<and> safe_get (srv_always (resp_429 (Some ''-5''))) ''u'' [] 6 client0
       = (Inl ValueError, client0\<lparr>gets := 1\<rparr>)
   \<and> safe_get (srv_always resp_304) ''u'' [] 6 client0 = (Inr resp_304, client0\<lparr>gets := 1\<rparr>)"
proof -
  have p: "py_int ''-5'' = Inr (- 5)"
    by (simp add: py_int_def split_sign_def py_strip_def py_isspace_def digitpart_def
        is_digit_def dec_val_def digit_val_def)
  have h: "headers srv client0 = (Inr (Bearer (JStr ''tok'')), client0)" for srv
    by (simp add: headers_def client0_def py_truthy_def)
  have a: "safe_get (srv_always (resp_429 (Some ''-5''))) ''u'' [] 6 client0
       = (Inl ValueError, client0\<lparr>gets := 1\<rparr>)"
    unfolding safe_get_def
    by (subst safe_get_loop.simps)
       (simp add: h, simp add: srv_always_def resp_429_def wait_seconds_def p sleep_def,
        simp add: client0_def)
  have b: "safe_get (srv_always resp_304) ''u'' [] 6 client0 = (Inr resp_304, client0\<lparr>gets := 1\<rparr>)"
    unfolding safe_get_def
    by (subst safe_get_loop.simps)
       (simp add: h, simp add: srv_always_def resp_304_def raise_for_status_def,
        simp add: client0_def)
  from p a b show ?thesis by simp
qed

lemma safe_get_loop_bad_sleep:
  assumes tok: "py_truthy (token c)"
    and st: "status_code (get_response srv url ps c 0) = 429"
    and le: "int (Suc attempt) \<le> max_retries"
    and w: "wait_seconds (Suc attempt) (get_response srv url ps c 0) < 0"
  shows "safe_get_loop srv url ps max_retries attempt c =
         (Inl ValueError, c\<lparr>gets := Suc (gets c)\<rparr>)"
  using st le w
  by (subst safe_get_loop.simps)
     (simp add: headers_cached [OF tok] get_response_def sleep_def Let_def)

lemma safe_get_loop_keeps_token:
  "py_truthy (token c) \<Longrightarrow>
     token (snd (safe_get_loop srv url ps max_retries attempt c)) = token c
     \<and> posts (snd (safe_get_loop srv url ps max_retries attempt c)) = posts c"
proof (induction "nat (max_retries + 1 - int attempt)" arbitrary: attempt c rule: less_induct)
  case less
  note tok = \<open>py_truthy (token c)\<close>
  let ?r = "get_response srv url ps c 0"
  consider (final) "status_code ?r \<noteq> 429"
    | (exhausted) "status_code ?r = 429" "int (Suc attempt) > max_retries"
    | (bad) "status_code ?r = 429" "int (Suc attempt) \<le> max_retries"
        "wait_seconds (Suc attempt) ?r < 0"
    | (retry) "status_code ?r = 429" "int (Suc attempt) \<le> max_retries"
        "0 \<le> wait_seconds (Suc attempt) ?r"
    by linarith
  then show ?case
  proof cases
    case final
    then show ?thesis by (simp add: safe_get_loop_final [OF tok])
  next
    case exhausted
    then show ?thesis by (simp add: safe_get_loop_exhausted [OF tok])
  next
    case bad
    then show ?thesis by (simp add: safe_get_loop_bad_sleep [OF tok])
  next
    case retry
    let ?c = "c\<lparr>gets := Suc (gets c), slept := slept c @ [wait_seconds (Suc attempt) ?r]\<rparr>"
    have step: "safe_get_loop srv url ps max_retries attempt c =
                safe_get_loop srv url ps max_retries (Suc attempt) ?c"
      by (rule safe_get_loop_retry [OF tok retry])
    have tok': "py_truthy (token ?c)" using tok by simp
    have "nat (max_retries + 1 - int (Suc attempt)) < nat (max_retries + 1 - int attempt)"
      using retry(2) by simp
    from less.hyps [OF this tok'] show ?thesis
      unfolding step by simp
  qed
qed

lemma auth_stores:
  assumes "raise_for_status (srv_post srv (posts c)) = Inr ()"
    and "json_body (srv_post srv (posts c)) = Some (JObj kvs)"
    and "map_of kvs ''access_token'' = Some t"
  shows "auth srv c = (Inr (), c\<lparr>posts := Suc (posts c), token := t\<rparr>)"
  using assms by (simp add: auth_def Let_def response_json_def py_get_def)

text \<open>
  C2 (amended): the bearer token is cached in memory and reused across requests. A
  token request that the service answers with a JSON object, without an error status,
  stores the value of \<open>access_token\<close> in the client. A client without a token
  authenticates once before the request is sent, then holds the token it received and
  sends it; when that token is not empty, the whole call of \<open>_safe_get\<close>, with all its
  retries, costs this one token request and leaves the token in the client for the next
  call. A client that holds a token sends it without a token request, and a call of
  \<open>_safe_get\<close> leaves the token and the number of token requests unchanged. A request
  that is answered 401 fails at once: no token request, no second GET.
\<close>

theorem C2_token_cached_no_reauth:
  "(py_truthy (token c) \<longrightarrow> headers srv c = (Inr (Bearer (token c)), c))
   \<and> (py_truthy (token c) \<longrightarrow>
        token (snd (safe_get srv url ps max_retries c)) = token c
        \<and> posts (snd (safe_get srv url ps max_retries c)) = posts c)
   \<and> (\<not> py_truthy (token c) \<longrightarrow> posts (snd (headers srv c)) = Suc (posts c))
   \<and> (py_truthy (token c) \<and> status_code (get_response srv url ps c 0) = 401 \<longrightarrow>
        safe_get srv url ps max_retries c = (Inl (HTTPError 401), c\<lparr>gets := Suc (gets c)\<rparr>))
   \<and> (raise_for_status (srv_post srv (posts c)) = Inr ()
        \<and> json_body (srv_post srv (posts c)) = Some (JObj kvs)
        \<and> map_of kvs ''access_token'' = Some t \<longrightarrow>
          auth srv c = (Inr (), c\<lparr>posts := Suc (posts c), token := t\<rparr>)
        \<and> (\<not> py_truthy (token c) \<longrightarrow>
             headers srv c = (Inr (Bearer t), c\<lparr>posts := Suc (posts c), token := t\<rparr>))
        \<and> (\<not> py_truthy (token c) \<and> py_truthy t \<longrightarrow>
             token (snd (safe_get srv url ps max_retries c)) = t
             \<and> posts (snd (safe_get srv url ps max_retries c)) = Suc (posts c)
             \<and> headers srv (snd (safe_get srv url ps max_retries c))
                 = (Inr (Bearer t), snd (safe_get srv url ps max_retries c))))"
proof (intro conjI impI)
  assume "py_truthy (token c)"
  then show "headers srv c = (Inr (Bearer (token c)), c)"
    by (rule headers_cached)
next
  assume "py_truthy (token c)"
  then show "token (snd (safe_get srv url ps max_retries c)) = token c"
    and "posts (snd (safe_get srv url ps max_retries c)) = posts c"
    unfolding safe_get_def by (simp_all add: safe_get_loop_keeps_token)
next
  assume "\<not> py_truthy (token c)"
  then show "posts (snd (headers srv c)) = Suc (posts c)"
    by (simp add: headers_def auth_def Let_def split: sum.splits prod.splits)
next
  assume a: "py_truthy (token c) \<and> status_code (get_response srv url ps c 0) = 401"
  then have "status_code (get_response srv url ps c 0) \<noteq> 429" by simp
  from safe_get_loop_final [OF conjunct1 [OF a] this] a
  show "safe_get srv url ps max_retries c = (Inl (HTTPError 401), c\<lparr>gets := Suc (gets c)\<rparr>)"
    unfolding safe_get_def by (simp add: raise_for_status_def)
next
  assume r: "raise_for_status (srv_post srv (posts c)) = Inr ()
        \<and> json_body (srv_post srv (posts c)) = Some (JObj kvs)
        \<and> map_of kvs ''access_token'' = Some t"
  let ?c1 = "c\<lparr>posts := Suc (posts c), token := t\<rparr>"
  from r show au: "auth srv c = (Inr (), ?c1)"
    by (simp add: auth_stores)
  {
    assume "\<not> py_truthy (token c)"
    then show "headers srv c = (Inr (Bearer t), ?c1)"
      by (simp add: headers_def au)
  }
  {
    assume n: "\<not> py_truthy (token c) \<and> py_truthy t"
    then have h: "headers srv c = (Inr (Bearer t), ?c1)"
      by (simp add: headers_def au)
    have tok: "py_truthy (token ?c1)" using n by simp
    have eq: "safe_get srv url ps max_retries c = safe_get srv url ps max_retries ?c1"
      unfolding safe_get_def by (rule safe_get_loop_after_auth [OF h tok])
    have keep: "token (snd (safe_get srv url ps max_retries ?c1)) = token ?c1
        \<and> posts (snd (safe_get srv url ps max_retries ?c1)) = posts ?c1"
      unfolding safe_get_def by (rule safe_get_loop_keeps_token [OF tok])
    from keep show "token (snd (safe_get srv url ps max_retries c)) = t"
      and p: "posts (snd (safe_get srv url ps max_retries c)) = Suc (posts c)"
      unfolding eq by simp_all
    from keep n show "headers srv (snd (safe_get srv url ps max_retries c))
                 = (Inr (Bearer t), snd (safe_get srv url ps max_retries c))"
      unfolding eq using headers_cached [of "snd (safe_get srv url ps max_retries ?c1)" srv]
      by simp
  }
qed

text \<open>
  C2, instance: a client that holds the token sends it; a client whose token was removed
  sends its second token request; the client without a token receives \<open>tok\<close> from the
  service, stores it, keeps it through a call with three retries after one token
  request, and sends it again afterwards.
\<close>

theorem C2_token_cached_no_reauth_witness:
  "headers (srv_always resp_401) client0 = (Inr (Bearer (JStr ''tok'')), client0)
   \<and> posts (snd (headers (srv_always resp_200) (client0\<lparr>token := JNull\<rparr>))) = 2
   \<and> token (snd (safe_get srv_three_429 ''u'' [] 6 client0)) = JStr ''tok''
   \<and> auth srv_three_429 client_fresh = (Inr (), client0)
   \<and> headers srv_three_429 client_fresh = (Inr (Bearer (JStr ''tok'')), client0)
   \<and> token (snd (safe_get srv_three_429 ''u'' [] 6 client_fresh)) = JStr ''tok''
   \<and> posts (snd (safe_get srv_three_429 ''u'' [] 6 client_fresh)) = 1
   \<and> headers srv_three_429 (snd (safe_get srv_three_429 ''u'' [] 6 client_fresh))
       = (Inr (Bearer (JStr ''tok'')), snd (safe_get srv_three_429 ''u'' [] 6 client_fresh))"
proof -
  have tok: "py_truthy (token client0)"
    by (simp add: client0_def py_truthy_def)
  have ntok: "\<not> py_truthy (token (client0\<lparr>token := JNull\<rparr>))"
    by (simp add: py_truthy_def)
  have fresh: "\<not> py_truthy (token client_fresh)" "py_truthy (JStr ''tok'')"
    by (simp_all add: client_fresh_def py_truthy_def)
  have post: "raise_for_status (srv_post srv_three_429 (posts client_fresh)) = Inr ()
      \<and> json_body (srv_post srv_three_429 (posts client_fresh))
          = Some (JObj [(''access_token'', JStr ''tok'')])
      \<and> map_of [(''access_token'', JStr ''tok'')] ''access_token'' = Some (JStr ''tok'')"
    by (simp add: srv_three_429_def resp_token_def raise_for_status_def)
  have c: "client_fresh\<lparr>posts := Suc (posts client_fresh), token := JStr ''tok''\<rparr> = client0"
    by (simp add: client_fresh_def client0_def)
  note a = C2_token_cached_no_reauth [of client0 "srv_always resp_401" "''u''" "[]" 6 "[]" JNull]
  note b = C2_token_cached_no_reauth
      [of "client0\<lparr>token := JNull\<rparr>" "srv_always resp_200" "''u''" "[]" 6 "[]" JNull]
  note d = C2_token_cached_no_reauth [of client0 srv_three_429 "''u''" "[]" 6 "[]" JNull]
  note e = C2_token_cached_no_reauth [of client_fresh srv_three_429 "''u''" "[]" 6
        "[(''access_token'', JStr ''tok'')]" "JStr ''tok''"]
  from a tok have 1: "headers (srv_always resp_401) client0 = (Inr (Bearer (JStr ''tok'')), client0)"
    by (simp add: client0_def)
  from b ntok have 2: "posts (snd (headers (srv_always resp_200) (client0\<lparr>token := JNull\<rparr>))) = 2"
    by (simp add: client0_def)
  from d tok have 3: "token (snd (safe_get srv_three_429 ''u'' [] 6 client0)) = JStr ''tok''"
    by (simp add: client0_def)
  have p0: "posts client_fresh = 0"
    by (simp add: client_fresh_def)
  from e post fresh show ?thesis
    unfolding c using 1 2 3 p0 by simp
qed

text \<open>
  C2, counterexample: a client holding a token that the service rejects with 401: the call fails with that
  status after one GET request, and no token request is sent.
\<close>

theorem C2_expired_token_counterexample:
  "safe_get (srv_always resp_401) ''u'' [] 6 client0 = (Inl (HTTPError 401), client0\<lparr>gets := 1\<rparr>)
   \<and> posts (snd (safe_get (srv_always resp_401) ''u'' [] 6 client0)) = posts client0
   \<and> gets (snd (safe_get (srv_always resp_401) ''u'' [] 6 client0)) = 1"
proof -
  have h: "headers srv client0 = (Inr (Bearer (JStr ''tok'')), client0)" for srv
    by (simp add: headers_def client0_def py_truthy_def)
  have "safe_get (srv_always resp_401) ''u'' [] 6 client0 = (Inl (HTTPError 401), client0\<lparr>gets := 1\<rparr>)"
    unfolding safe_get_def
    by (subst safe_get_loop.simps)
       (simp add: h, simp add: srv_always_def resp_401_def raise_for_status_def,
        simp add: client0_def)
  then show ?thesis by simp
qed

subsection \<open>Properties of the duration parser\<close>

lemma is_digit_not_special:
  assumes "is_digit c"
  shows "\<not> py_isspace c" "c \<noteq> CHR ''-''" "c \<noteq> CHR ''+''" "c \<noteq> CHR ''_''"
    "c \<noteq> CHR ''e''" "c \<noteq> CHR ''E''" "c \<noteq> CHR ''.''" "c \<noteq> CHR ''h''" "c \<noteq> CHR ''m''"
    "c \<noteq> CHR ''P''" "c \<noteq> CHR ''i''" "c \<noteq> CHR ''n''"
  using assms by (auto simp: is_digit_def py_isspace_def)

lemma digits_strip:
  assumes "list_all is_digit ds"
  shows "py_strip ds = ds"
proof -
  have a: "dropWhile py_isspace xs = xs" if "list_all is_digit xs" for xs
    using that by (cases xs) (auto simp: is_digit_not_special)
  have "list_all is_digit (rev ds)" using assms by (simp add: list_all_iff)
  then show ?thesis by (simp add: py_strip_def a [OF assms] a)
qed

lemma digits_split_sign:
  assumes "list_all is_digit ds"
  shows "split_sign ds = (False, ds)"
  using assms by (cases ds) (auto simp: split_sign_def is_digit_not_special)

lemma digit_lower:
  assumes "is_digit c"
  shows "lower_char c = c"
proof -
  have "c \<notin> set upper_letters"
    using assms by (auto simp: is_digit_def upper_letters_def)
  moreover have "length upper_letters = length lower_letters"
    by (simp add: upper_letters_def lower_letters_def)
  ultimately have "map_of (zip upper_letters lower_letters) c = None"
    by (simp add: map_of_zip_is_None)
  then show ?thesis by (simp add: lower_char_def)
qed

lemma digits_lower:
  assumes "list_all is_digit ds"
  shows "py_lower ds = ds"
  using assms unfolding py_lower_def
  by (induction ds) (auto simp: digit_lower)

lemma digits_no_special:
  assumes "list_all is_digit ds"
  shows "CHR ''P'' \<notin> set ds" "CHR ''h'' \<notin> set ds" "CHR ''m'' \<notin> set ds"
  using assms by (auto simp: list_all_iff is_digit_def)

lemma digits_no_adjacent_underscores:
  "list_all is_digit ds \<Longrightarrow> \<not> adjacent_underscores ds"
  by (induction ds rule: adjacent_underscores.induct) (auto simp: is_digit_not_special)

lemma digits_digitpart:
  assumes "list_all is_digit ds" "ds \<noteq> []"
  shows "digitpart ds = Some ds"
proof -
  have 1: "hd ds \<noteq> CHR ''_''" using assms by (cases ds) (auto simp: is_digit_not_special)
  have 2: "last ds \<noteq> CHR ''_''"
    using assms last_in_set [OF assms(2)] by (auto simp: list_all_iff is_digit_not_special)
  have 3: "list_all (\<lambda>c. is_digit c \<or> c = CHR ''_'') ds"
    using assms by (simp add: list_all_iff)
  have 4: "filter is_digit ds = ds" using assms by (simp add: list_all_iff)
  show ?thesis
    using assms(2) 1 2 3 4 digits_no_adjacent_underscores [OF assms(1)]
    by (simp add: digitpart_def)
qed

lemma digits_decimal_literal:
  assumes "list_all is_digit ds" "ds \<noteq> []"
  shows "decimal_literal ds = Some (real (dec_val ds))"
proof -
  have tw: "takeWhile (\<lambda>c. \<not> P c) ds = ds" "dropWhile (\<lambda>c. \<not> P c) ds = []"
    if "\<And>c. is_digit c \<Longrightarrow> \<not> P c" for P
    using assms(1) that by (simp_all add: list_all_iff)
  have e: "split_at (\<lambda>c. c = CHR ''e'' \<or> c = CHR ''E'') ds = (ds, None)"
    unfolding split_at_def by (subst tw, (auto simp: is_digit_not_special)[1])+ simp
  have d: "split_at (\<lambda>c. c = CHR ''.'') ds = (ds, None)"
    unfolding split_at_def by (subst tw, (auto simp: is_digit_not_special)[1])+ simp
  show ?thesis
    using assms(2)
    by (simp add: decimal_literal_def e d optional_digits_def digits_digitpart [OF assms]
        exponent_val_def pow10_def dec_val_def)
qed

lemma digits_py_float_str:
  assumes "list_all is_digit ds" "ds \<noteq> []"
  shows "py_float_str ds = Inr (Fin (real (dec_val ds)))"
proof -
  obtain c r where ds: "ds = c # r" using assms(2) by (cases ds) auto
  then have c: "is_digit c" using assms(1) by simp
  have "ds \<noteq> ''inf''" "ds \<noteq> ''infinity''" "ds \<noteq> ''nan''"
    using c is_digit_not_special [OF c] unfolding ds by auto
  then show ?thesis
    by (simp add: py_float_str_def digits_strip [OF assms(1)] digits_split_sign [OF assms(1)]
        digits_lower [OF assms(1)] digits_decimal_literal [OF assms])
qed

lemma remove2_absent: "a \<notin> set s \<Longrightarrow> remove2 a b s = s"
  by (induction a b s rule: remove2.induct) auto

lemma py_split_absent: "c \<notin> set s \<Longrightarrow> py_split c s = [s]"
  by (induction s) auto

lemma py_split_first: "c \<notin> set a \<Longrightarrow> py_split c (a @ c # b) = a # py_split c b"
  by (induction a) auto

lemma py_lower_append: "py_lower (a @ b) = py_lower a @ py_lower b"
  by (simp add: py_lower_def)

lemma lower_char_hm:
  "lower_char CHR ''H'' = CHR ''h''" "lower_char CHR ''h'' = CHR ''h''"
  "lower_char CHR ''M'' = CHR ''m''" "lower_char CHR ''m'' = CHR ''m''"
  by (simp_all add: lower_char_def upper_letters_def lower_letters_def)

lemma py_lower_single: "py_lower [c] = [lower_char c]"
  by (simp add: py_lower_def)

lemma lower_component:
  assumes "digits_ok ds" "c = CHR ''H'' \<or> c = CHR ''h''"
  shows "py_lower (component ds c) = component ds CHR ''h''"
proof (cases ds)
  case None
  then show ?thesis by (simp add: component_def py_lower_def)
next
  case (Some d)
  then have "py_lower d = d" using assms(1) by (simp add: digits_ok_def digits_lower)
  moreover have "lower_char c = CHR ''h''" using assms(2) lower_char_hm by blast
  ultimately show ?thesis
    by (simp add: Some component_def py_lower_append py_lower_single)
qed

lemma lower_component_m:
  assumes "digits_ok ds" "c = CHR ''M'' \<or> c = CHR ''m''"
  shows "py_lower (component ds c) = component ds CHR ''m''"
proof (cases ds)
  case None
  then show ?thesis by (simp add: component_def py_lower_def)
next
  case (Some d)
  then have "py_lower d = d" using assms(1) by (simp add: digits_ok_def digits_lower)
  moreover have "lower_char c = CHR ''m''" using assms(2) lower_char_hm by blast
  ultimately show ?thesis
    by (simp add: Some component_def py_lower_append py_lower_single)
qed

lemma component_no_P:
  assumes "digits_ok ds" "c \<noteq> CHR ''P''"
  shows "CHR ''P'' \<notin> set (component ds c)"
  using assms by (auto simp: component_def digits_ok_def digits_no_special
      split: option.splits)

lemma token_normalised:
  assumes "digits_ok h" "digits_ok m"
    and "hc = CHR ''H'' \<or> hc = CHR ''h''" "mc = CHR ''M'' \<or> mc = CHR ''m''"
  shows "py_lower (remove2 CHR ''P'' CHR ''T'' (duration_token h hc m mc))
         = component h CHR ''h'' @ component m CHR ''m''"
proof -
  have "CHR ''P'' \<notin> set (component h hc @ component m mc)"
    using component_no_P [OF assms(1), of hc] component_no_P [OF assms(2), of mc] assms(3,4)
    by auto
  then have "remove2 CHR ''P'' CHR ''T'' (duration_token h hc m mc) = component h hc @ component m mc"
    by (simp add: duration_token_def remove2_absent)
  then show ?thesis
    by (simp add: py_lower_append lower_component [OF assms(1,3)] lower_component_m [OF assms(2,4)])
qed

lemma parse_normalised_hm:
  assumes "list_all is_digit hs" "hs \<noteq> []" "list_all is_digit ms" "ms \<noteq> []"
  shows "CHR ''h'' \<in> set (hs @ ''h'' @ ms @ ''m'')"
    "py_split CHR ''h'' (hs @ ''h'' @ ms @ ''m'') = [hs, ms @ ''m'']"
    "py_split CHR ''m'' (ms @ ''m'') = [ms, []]"
proof -
  have nh: "CHR ''h'' \<notin> set hs" "CHR ''h'' \<notin> set (ms @ ''m'')" "CHR ''m'' \<notin> set ms"
    using assms by (simp_all add: digits_no_special)
  show "CHR ''h'' \<in> set (hs @ ''h'' @ ms @ ''m'')" by simp
  show "py_split CHR ''h'' (hs @ ''h'' @ ms @ ''m'') = [hs, ms @ ''m'']"
    using py_split_first [OF nh(1), of "ms @ ''m''"] py_split_absent [OF nh(2)] by simp
  show "py_split CHR ''m'' (ms @ ''m'') = [ms, []]"
    using py_split_first [OF nh(3), of "[]"] by simp
qed

lemma parse_token:
  assumes "take 2 s = ''PT''"
  shows "parse_duration_hours (JStr s) = parse_normalised (py_lower (remove2 CHR ''P'' CHR ''T'' s))"
proof -
  have "s \<noteq> []" using assms by auto
  then show ?thesis using assms by (simp add: parse_duration_hours_def py_truthy_def)
qed

lemma norm_nn: "parse_normalised [] = Inr (Fin 0)"
  by (simp add: parse_normalised_def)

lemma norm_nm:
  assumes ms: "list_all is_digit ms" "ms \<noteq> []"
  shows "parse_normalised (ms @ ''m'') = Inr (Fin (real (dec_val ms) / 60))"
proof -
  have nh: "CHR ''h'' \<notin> set ms" "filter (\<lambda>c. c \<noteq> CHR ''m'') ms = ms"
    using digits_no_special [OF ms(1)] by (auto intro: filter_True)
  show ?thesis
    using ms(2) nh(1)
    by (simp add: parse_normalised_def nh(2) float_or_zero_def digits_py_float_str [OF ms])
qed

lemma norm_hn:
  assumes hs: "list_all is_digit hs" "hs \<noteq> []"
  shows "parse_normalised (hs @ ''h'') = Inr (Fin (real (dec_val hs)))"
proof -
  have nh: "CHR ''h'' \<notin> set hs"
    using hs by (simp add: digits_no_special)
  have sp: "py_split CHR ''h'' (hs @ ''h'') = [hs, []]"
    using py_split_first [OF nh, of "[]"] by simp
  show ?thesis
    using hs(2)
    by (simp add: parse_normalised_def sp float_or_zero_def minutes_of_tail_def
        digits_py_float_str [OF hs])
qed

lemma norm_hm:
  assumes hs: "list_all is_digit hs" "hs \<noteq> []"
    and ms: "list_all is_digit ms" "ms \<noteq> []"
  shows "parse_normalised (hs @ ''h'' @ ms @ ''m'')
         = Inr (Fin (real (dec_val hs) + real (dec_val ms) / 60))"
proof -
  note p = parse_normalised_hm [OF hs ms]
  have sp: "py_split CHR ''h'' (hs @ CHR ''h'' # ms @ ''m'') = [hs, ms @ ''m'']"
    using p(2) by simp
  show ?thesis
    using hs(2) ms(2)
    by (simp add: parse_normalised_def sp p(3) float_or_zero_def minutes_of_tail_def
        digits_py_float_str [OF hs] digits_py_float_str [OF ms])
qed

text \<open>
  C7 (amended): for every token \<open>PT<hours>H<minutes>M\<close> whose prefix is the upper-case
  \<open>PT\<close>, with either component optional, the digits non-empty and the designators
  \<open>H\<close> and \<open>M\<close> in either letter case, the parser returns hours + minutes/60.
\<close>

theorem C7_parse_duration_hours:
  assumes "digits_ok h" "digits_ok m"
    and "hc = CHR ''H'' \<or> hc = CHR ''h''" "mc = CHR ''M'' \<or> mc = CHR ''m''"
  shows "parse_duration_hours (JStr (duration_token h hc m mc))
         = Inr (Fin (real (component_val h) + real (component_val m) / 60))"
proof -
  have "take 2 (duration_token h hc m mc) = ''PT''"
    by (simp add: duration_token_def)
  then have "parse_duration_hours (JStr (duration_token h hc m mc))
      = parse_normalised (component h CHR ''h'' @ component m CHR ''m'')"
    by (simp add: parse_token token_normalised [OF assms])
  also have "\<dots> = Inr (Fin (real (component_val h) + real (component_val m) / 60))"
  proof (cases h; cases m)
    show ?thesis if "h = None" "m = None"
      using that by (simp add: component_def component_val_def norm_nn)
    show ?thesis if "h = None" "m = Some ms" for ms
      using that assms(2) by (simp add: component_def component_val_def norm_nm digits_ok_def)
    show ?thesis if "h = Some hs" "m = None" for hs
      using that assms(1) by (simp add: component_def component_val_def norm_hn digits_ok_def)
    show ?thesis if "h = Some hs" "m = Some ms" for hs ms
      using that assms(1,2) norm_hm [of hs ms]
      by (simp add: component_def component_val_def digits_ok_def)
  qed
  finally show ?thesis .
qed

text \<open>
  C7, instance: \<open>PT2H30M\<close> yields 2.5, \<open>PT45M\<close> yields 0.75, \<open>PT10H\<close> yields 10.0, and lower-case
  designators are accepted.
\<close>

theorem C7_parse_duration_hours_witness:
  "parse_duration_hours (JStr ''PT2H30M'') = Inr (Fin (5 / 2))
   \<and> parse_duration_hours (JStr ''PT45M'') = Inr (Fin (3 / 4))
   \<and> parse_duration_hours (JStr ''PT10H'') = Inr (Fin 10)
   \<and> parse_duration_hours (JStr ''PT2h30m'') = Inr (Fin (5 / 2))"
  using C7_parse_duration_hours [of "Some ''2''" "Some ''30''" "CHR ''H''" "CHR ''M''"]
    C7_parse_duration_hours [of None "Some ''45''" "CHR ''H''" "CHR ''M''"]
    C7_parse_duration_hours [of "Some ''10''" None "CHR ''H''" "CHR ''M''"]
    C7_parse_duration_hours [of "Some ''2''" "Some ''30''" "CHR ''h''" "CHR ''m''"]
  by (simp add: digits_ok_def is_digit_def duration_token_def component_def component_val_def
      dec_val_def digit_val_def)

text \<open>C7, counterexample: the token in lower case, \<open>pt2h30m\<close>, yields 0.0 and not 2.5.\<close>

theorem C7_lowercase_prefix_counterexample:
  "py_lower ''PT2H30M'' = ''pt2h30m''
   \<and> parse_duration_hours (JStr ''pt2h30m'') = Inr (Fin 0)
   \<and> parse_duration_hours (JStr ''pt2h30m'') \<noteq> Inr (Fin (2 + 30 / 60))"
  by (simp add: py_lower_def lower_char_def upper_letters_def lower_letters_def
      parse_duration_hours_def py_truthy_def)

lemma py_split_not_Nil: "py_split c s \<noteq> []"
  by (induction s) (auto split: list.splits)

lemma py_split_hd: "hd (py_split c s) = takeWhile (\<lambda>x. x \<noteq> c) s"
  by (induction s) (auto split: list.splits simp: py_split_not_Nil)

lemma py_split_second:
  "c \<in> set s \<Longrightarrow>
     1 < length (py_split c s)
     \<and> py_split c s ! 1 = takeWhile (\<lambda>x. x \<noteq> c) (tl (dropWhile (\<lambda>x. x \<noteq> c) s))"
proof (induction s)
  case Nil
  then show ?case by simp
next
  case (Cons x xs)
  show ?case
  proof (cases "x = c")
    case True
    then show ?thesis
      using py_split_not_Nil [of c xs] py_split_hd [of c xs]
      by (cases "py_split c xs") (auto simp: hd_conv_nth)
  next
    case False
    with Cons.prems have "c \<in> set xs" by simp
    from Cons.IH [OF this] False show ?thesis
      by (cases "py_split c xs") auto
  qed
qed

lemma parse_normalised_texts:
  "parse_normalised n =
     py_bind (float_or_zero (hours_text n)) (\<lambda>h.
     py_bind (float_or_zero (minutes_text n)) (\<lambda>m.
     Inr (pf_add h (pf_div_by m 60))))"
proof (cases "CHR ''h'' \<in> set n")
  case True
  define parts where "parts = py_split CHR ''h'' n"
  define tail where "tail = takeWhile (\<lambda>c. c \<noteq> CHR ''h'') (tl (dropWhile (\<lambda>c. c \<noteq> CHR ''h'') n))"
  have len: "length parts > 1" and snd: "parts ! 1 = tail"
    using py_split_second [OF True] by (simp_all add: parts_def tail_def)
  have hd: "hd parts = hours_text n"
    using True by (simp add: parts_def py_split_hd hours_text_def)
  have mt: "minutes_of_tail tail = float_or_zero (minutes_text n)"
    using True
    by (simp add: minutes_of_tail_def minutes_text_def tail_def [symmetric] py_split_hd
        float_or_zero_def)
  have "parse_normalised n =
     py_bind (float_or_zero (hd parts)) (\<lambda>h.
     py_bind (minutes_of_tail (if length parts > 1 then parts ! 1 else [])) (\<lambda>m.
     Inr (pf_add h (pf_div_by m 60))))"
    using True by (simp add: parse_normalised_def parts_def Let_def)
  also have "(if length parts > 1 then parts ! 1 else []) = tail"
    using len snd by simp
  finally show ?thesis
    by (simp only: hd mt)
next
  case False
  then show ?thesis
    by (simp add: parse_normalised_def hours_text_def minutes_text_def float_or_zero_def)
qed

lemma float_or_zero_reads_as_zero:
  "reads_as_zero t \<Longrightarrow> float_or_zero t = Inr (Fin 0)"
  by (auto simp: reads_as_zero_def float_or_zero_def)

text \<open>
  C8 (amended): the parser returns 0.0 and does not raise on every empty input (the
  empty string, \<open>None\<close>), on every string that does not start with \<open>PT\<close>, and on every
  string that starts with \<open>PT\<close> in which the text before the hour designator and the
  text before the minute designator are each empty or read as zero. The last case covers
  \<open>PT\<close> alone, every \<open>PT\<close> followed by text without \<open>h\<close> or \<open>m\<close> in either letter case
  (\<open>PTabc\<close>, \<open>PT15S\<close>), and designators with nothing before them (\<open>PTH\<close>, \<open>PTM\<close>, \<open>PTHM\<close>).
\<close>

theorem C8_lenient_guard:
  "(\<not> py_truthy v \<longrightarrow> parse_duration_hours v = Inr (Fin 0))
   \<and> (take 2 s \<noteq> ''PT'' \<longrightarrow> parse_duration_hours (JStr s) = Inr (Fin 0))
   \<and> (take 2 s = ''PT'' \<and> reads_as_zero (hours_text (normalised_text s))
        \<and> reads_as_zero (minutes_text (normalised_text s)) \<longrightarrow>
        parse_duration_hours (JStr s) = Inr (Fin 0))
   \<and> (CHR ''h'' \<notin> set (normalised_text s) \<and> CHR ''m'' \<notin> set (normalised_text s) \<longrightarrow>
        hours_text (normalised_text s) = [] \<and> minutes_text (normalised_text s) = [])
   \<and> parse_duration_hours (JStr ''PT'') = Inr (Fin 0)
   \<and> parse_duration_hours (JStr []) = Inr (Fin 0)"
proof (intro conjI impI)
  assume "\<not> py_truthy v"
  then show "parse_duration_hours v = Inr (Fin 0)"
    by (simp add: parse_duration_hours_def)
next
  assume "take 2 s \<noteq> ''PT''"
  then show "parse_duration_hours (JStr s) = Inr (Fin 0)"
    by (simp add: parse_duration_hours_def)
next
  assume a: "take 2 s = ''PT'' \<and> reads_as_zero (hours_text (normalised_text s))
        \<and> reads_as_zero (minutes_text (normalised_text s))"
  then have "parse_duration_hours (JStr s) = parse_normalised (normalised_text s)"
    by (simp add: parse_token normalised_text_def)
  also have "\<dots> = Inr (Fin 0)"
    using a by (simp add: parse_normalised_texts float_or_zero_reads_as_zero)
  finally show "parse_duration_hours (JStr s) = Inr (Fin 0)" .
next
  assume "CHR ''h'' \<notin> set (normalised_text s) \<and> CHR ''m'' \<notin> set (normalised_text s)"
  then show "hours_text (normalised_text s) = []" and "minutes_text (normalised_text s) = []"
    by (simp_all add: hours_text_def minutes_text_def)
next
  show "parse_duration_hours (JStr ''PT'') = Inr (Fin 0)"
    by (simp add: parse_duration_hours_def py_truthy_def parse_normalised_def py_lower_def)
next
  show "parse_duration_hours (JStr []) = Inr (Fin 0)"
    by (simp add: parse_duration_hours_def py_truthy_def)
qed

lemma normalised_examples:
  "normalised_text ''PTabc'' = ''abc''" "normalised_text ''PT15S'' = ''15s''"
  "normalised_text ''PTH'' = ''h''" "normalised_text ''PTM'' = ''m''"
  "normalised_text ''PTHM'' = ''hm''" "normalised_text ''PT0H0M0S'' = ''0h0m0s''"
  by (simp_all add: normalised_text_def py_lower_def lower_char_def upper_letters_def
      lower_letters_def)

lemma py_float_str_0: "py_float_str ''0'' = Inr (Fin 0)"
  using digits_py_float_str [of "''0''"]
  by (simp add: is_digit_def dec_val_def digit_val_def)

text \<open>
  C8, instance: inputs without the prefix, \<open>None\<close>, text without a designator after the
  prefix, designators with nothing before them, and components that read as zero in a
  string with a seconds component.
\<close>

theorem C8_lenient_guard_witness:
  "parse_duration_hours (JStr ''2H30M'') = Inr (Fin 0)
   \<and> parse_duration_hours JNull = Inr (Fin 0)
   \<and> parse_duration_hours (JStr ''P1DT2H'') = Inr (Fin 0)
   \<and> parse_duration_hours (JStr ''PTabc'') = Inr (Fin 0)
   \<and> parse_duration_hours (JStr ''PT15S'') = Inr (Fin 0)
   \<and> parse_duration_hours (JStr ''PTH'') = Inr (Fin 0)
   \<and> parse_duration_hours (JStr ''PTM'') = Inr (Fin 0)
   \<and> parse_duration_hours (JStr ''PTHM'') = Inr (Fin 0)
   \<and> parse_duration_hours (JStr ''PT0H0M0S'') = Inr (Fin 0)"
  using C8_lenient_guard [of JNull "''2H30M''"] C8_lenient_guard [of JNull "''P1DT2H''"]
    C8_lenient_guard [of JNull "''PTabc''"] C8_lenient_guard [of JNull "''PT15S''"]
    C8_lenient_guard [of JNull "''PTH''"] C8_lenient_guard [of JNull "''PTM''"]
    C8_lenient_guard [of JNull "''PTHM''"] C8_lenient_guard [of JNull "''PT0H0M0S''"]
  by (simp add: py_truthy_def normalised_examples hours_text_def minutes_text_def
      reads_as_zero_def py_float_str_0)

lemma py_float_str_x: "py_float_str ''x'' = Inl ValueError"
  by (simp add: py_float_str_def py_strip_def py_isspace_def split_sign_def py_lower_def
      lower_char_def upper_letters_def lower_letters_def decimal_literal_def split_at_def
      optional_digits_def digitpart_def is_digit_def exponent_val_def)

text \<open>
  C8, counterexample: malformed inputs that start with \<open>PT\<close> and have text before a
  designator: \<open>PTxH\<close> raises \<open>ValueError\<close>, and \<open>PT2H30M15S\<close> yields 2.5.
\<close>

theorem C8_malformed_counterexample:
  "parse_duration_hours (JStr ''PTxH'') = Inl ValueError
   \<and> parse_duration_hours (JStr ''PT2H30M15S'') = Inr (Fin (5 / 2))"
proof -
  have a: "parse_duration_hours (JStr ''PTxH'') = Inl ValueError"
    by (simp add: parse_duration_hours_def py_truthy_def py_lower_def lower_char_def
        upper_letters_def lower_letters_def parse_normalised_def float_or_zero_def py_float_str_x)
  have d2: "py_float_str ''2'' = Inr (Fin 2)" and d30: "py_float_str ''30'' = Inr (Fin 30)"
    using digits_py_float_str [of "''2''"] digits_py_float_str [of "''30''"]
    by (simp_all add: is_digit_def dec_val_def digit_val_def)
  have b: "parse_duration_hours (JStr ''PT2H30M15S'') = Inr (Fin (5 / 2))"
    by (simp add: parse_duration_hours_def py_truthy_def py_lower_def lower_char_def
        upper_letters_def lower_letters_def parse_normalised_def float_or_zero_def
        minutes_of_tail_def d2 d30)
  from a b show ?thesis by simp
qed

subsection \<open>Properties of the offer evaluator\<close>

lemma py_bind_Inr:
  "py_bind x f = Inr y \<longleftrightarrow> (\<exists>a. x = Inr a \<and> f a = Inr y)"
  by (cases x) auto

lemma py_bind_Inl:
  "py_bind x f = Inl e \<longleftrightarrow> x = Inl e \<or> (\<exists>a. x = Inr a \<and> f a = Inl e)"
  by (cases x) auto

lemma fare_has_bag_iff:
  "fare_has_bag f = Inr True \<longleftrightarrow> reports_included_bag f"
  by (auto simp: fare_has_bag_def reports_included_bag_def quantity_positive_def py_get_def
      py_gt_zero_def py_truthy_def py_bind_Inr
      split: json.splits option.splits if_splits)

lemma itin_loop_result:
  assumes "itin_loop its (t, ms, ls) = Inr (t', ms', ls')"
  shows "t' = foldl pf_add t (map itinerary_hours its)
       \<and> ms' = Max (set (ms # map stop_count its))
       \<and> ls' = ls @ concat (map (\<lambda>itin. if segment_count itin > 1 then [Fin (3 / 2)] else []) its)"
  using assms
proof (induction its arbitrary: t ms ls)
  case Nil
  then show ?case by simp
next
  case (Cons itin its)
  from Cons.prems obtain segs n d h where
    segs: "py_get itin ''segments'' (JArr []) = Inr segs" and
    n: "py_len segs = Inr n" and
    d: "py_get itin ''duration'' (JStr ''PT0H'') = Inr d" and
    h: "parse_duration_hours d = Inr h" and
    rest: "itin_loop its (pf_add t h, max ms (max 0 (int n - 1)),
             if n > 1 then ls @ [Fin (3 / 2)] else ls) = Inr (t', ms', ls')"
    by (auto simp: py_bind_Inr)
  have sc: "segment_count itin = n" by (simp add: segment_count_def segs n)
  have st: "stop_count itin = max 0 (int n - 1)" by (simp add: stop_count_def sc)
  have ih: "itinerary_hours itin = h" by (simp add: itinerary_hours_def d h)
  from Cons.IH [OF rest]
  have a: "t' = foldl pf_add (pf_add t h) (map itinerary_hours its)"
    and b: "ms' = Max (set (max ms (max 0 (int n - 1)) # map stop_count its))"
    and c: "ls' = (if n > 1 then ls @ [Fin (3 / 2)] else ls)
              @ concat (map (\<lambda>itin. if segment_count itin > 1 then [Fin (3 / 2)] else []) its)"
    by simp_all
  have b': "ms' = Max (set (ms # map stop_count (itin # its)))"
  proof -
    have "Max (insert (max ms (stop_count itin)) (set (map stop_count its)))
        = Max (insert ms (insert (stop_count itin) (set (map stop_count its))))"
      by (cases "its = []") (simp_all add: max.assoc)
    then show ?thesis using b by (simp add: st)
  qed
  show ?case using a b' c by (simp add: ih sc)
qed

lemma fare_loop_result:
  "fare_loop fs bag = Inr bag' \<Longrightarrow> bag' = (bag \<or> (\<exists>f \<in> set fs. fare_has_bag f = Inr True))"
proof (induction fs arbitrary: bag)
  case Nil
  then show ?case by simp
next
  case (Cons f fs)
  from Cons.prems obtain b where b: "fare_has_bag f = Inr b"
    and rest: "fare_loop fs (if b then True else bag) = Inr bag'"
    by (auto simp: py_bind_Inr)
  from Cons.IH [OF rest] b show ?case by auto
qed

lemma pricing_loop_result:
  "pricing_loop tps bag = Inr bag' \<Longrightarrow>
     bag' = (bag \<or> (\<exists>tp \<in> set tps. \<exists>f \<in> set (fares_of tp). fare_has_bag f = Inr True))"
proof (induction tps arbitrary: bag)
  case Nil
  then show ?case by simp
next
  case (Cons tp tps)
  from Cons.prems obtain fds fs bag1 where
    fds: "py_get tp ''fareDetailsBySegment'' (JArr []) = Inr fds" and
    fs: "py_iter fds = Inr fs" and
    b1: "fare_loop fs bag = Inr bag1" and
    rest: "pricing_loop tps bag1 = Inr bag'"
    by (auto simp: py_bind_Inr)
  have fo: "fares_of tp = fs" by (simp add: fares_of_def fds fs)
  from Cons.IH [OF rest] fare_loop_result [OF b1] show ?case
    by (auto simp: fo)
qed

lemma offer_locals_result:
  assumes "offer_locals offer = Inr (total_h, max_stops, lays, bag, prem)"
  shows "total_h = accumulated_hours (itineraries_of offer)"
    and "max_stops = max_stop_count (itineraries_of offer)"
    and "bag = some_bag_included offer"
proof -
  from assms obtain its_v its tps_v tps where
    a: "py_get offer ''itineraries'' (JArr []) = Inr its_v" "py_iter its_v = Inr its" and
    l: "itin_loop its (Fin 0, 0, []) = Inr (total_h, max_stops, lays)" and
    b: "py_get offer ''travelerPricings'' (JArr []) = Inr tps_v" "py_iter tps_v = Inr tps" and
    p: "pricing_loop tps False = Inr bag"
    unfolding offer_locals_def by (auto simp: py_bind_Inr)
  have io: "itineraries_of offer = its" by (simp add: itineraries_of_def a)
  have po: "pricings_of offer = tps" by (simp add: pricings_of_def b)
  from itin_loop_result [OF l] show "total_h = accumulated_hours (itineraries_of offer)"
    and "max_stops = max_stop_count (itineraries_of offer)"
    by (simp_all add: io accumulated_hours_def max_stop_count_def)
  from pricing_loop_result [OF p] show "bag = some_bag_included offer"
    by (simp add: some_bag_included_def po fare_has_bag_iff)
qed

text \<open>
  C4 (amended): for every offer record, \<open>passes\<close> is true if and only if the evaluation
  of the record raises no internal failure (\<open>offer_locals\<close> returns its values, not an
  exception), the maximum per-itinerary stop count (segment
  count minus 1, not below 0) is at most 1, the duration accumulated across the
  itineraries is strictly less than 25 hours, and at least one traveler's
  fare-detail-by-segment entry reports an included-checked-bag quantity greater than 0.
  When the evaluation raises no internal failure, the returned metrics hold these three
  values.
\<close>

theorem C4_pass_condition:
  "(fst (offer_meets_rules offer) \<longleftrightarrow>
       \<not> isl (offer_locals offer)
     \<and> max_stop_count (itineraries_of offer) \<le> 1
     \<and> pf_less (accumulated_hours (itineraries_of offer)) (Fin 25)
     \<and> some_bag_included offer)
   \<and> (\<not> isl (offer_locals offer) \<longrightarrow>
         stops (snd (offer_meets_rules offer)) = max_stop_count (itineraries_of offer)
       \<and> total_hours (snd (offer_meets_rules offer)) = accumulated_hours (itineraries_of offer)
       \<and> bag_included (snd (offer_meets_rules offer)) = some_bag_included offer)"
proof (cases "offer_locals offer")
  case (Inl e)
  then show ?thesis
    by (simp add: offer_meets_rules_def offer_try_def)
next
  case (Inr l)
  obtain total_h max_stops lays bag prem where l: "l = (total_h, max_stops, lays, bag, prem)"
    by (cases l) auto
  note r = offer_locals_result [OF Inr [unfolded l]]
  have m: "offer_meets_rules offer =
     (max_stops \<le> 1 \<and> pf_less total_h (Fin 25) \<and> bag,
      \<lparr>total_hours = total_h, stops = max_stops, bag_included = bag, premium = prem,
        layovers = lays\<rparr>)"
    using Inr
    by (simp add: offer_meets_rules_def offer_try_def l default_metrics_def Let_def
        MAX_STOPS_def MAX_DURATION_HOURS_def BAGGAGE_REQUIRED_def)
  show ?thesis
    unfolding m using r Inr by simp
qed


lemma parse_PT20H: "parse_duration_hours (JStr ''PT20H'') = Inr (Fin 20)"
proof -
  have d: "py_float_str ''20'' = Inr (Fin 20)"
    using digits_py_float_str [of "''20''"]
    by (simp add: is_digit_def dec_val_def digit_val_def)
  show ?thesis
    by (simp add: parse_duration_hours_def py_truthy_def py_lower_def lower_char_def
        upper_letters_def lower_letters_def parse_normalised_def float_or_zero_def
        minutes_of_tail_def d)
qed

lemma offer_example_locals:
  "offer_locals (offer_example segs ''PT20H'' q p) =
     Inr (Fin 20, max 0 (int (length segs) - 1),
          if length segs > 1 then [Fin (3 / 2)] else [], 0 < q, False)"
  by (simp add: offer_locals_def offer_example_def py_get_def py_iter_def py_len_def
      parse_PT20H bags_def fare_has_bag_def py_truthy_def py_gt_zero_def
      in_premium_codes_def PREMIUM_CODES_def)

lemma offer_example_spec:
  "max_stop_count (itineraries_of (offer_example segs ''PT20H'' q p)) = max 0 (int (length segs) - 1)"
  "accumulated_hours (itineraries_of (offer_example segs ''PT20H'' q p)) = Fin 20"
  "some_bag_included (offer_example segs ''PT20H'' q p) = (0 < q)"
  by (simp_all add: max_stop_count_def itineraries_of_def offer_example_def py_get_def
      py_iter_def stop_count_def segment_count_def py_len_def accumulated_hours_def
      itinerary_hours_def parse_PT20H some_bag_included_def pricings_of_def fares_of_def
      bags_def reports_included_bag_def quantity_positive_def)

text \<open>
  C4, instance: one itinerary of two segments, 20 hours, one included bag: passes, with stops 1,
  hours 20.0 and baggage included. Three segments fail; no included bag fails.
\<close>

theorem C4_pass_condition_witness:
  "fst (offer_meets_rules (offer_example [segment, segment] ''PT20H'' 1 ''680.00''))
   \<and> stops (snd (offer_meets_rules (offer_example [segment, segment] ''PT20H'' 1 ''680.00''))) = 1
   \<and> total_hours (snd (offer_meets_rules (offer_example [segment, segment] ''PT20H'' 1 ''680.00''))) = Fin 20
   \<and> bag_included (snd (offer_meets_rules (offer_example [segment, segment] ''PT20H'' 1 ''680.00'')))
   \<and> \<not> fst (offer_meets_rules (offer_example [segment, segment, segment] ''PT20H'' 1 ''680.00''))
   \<and> \<not> fst (offer_meets_rules (offer_example [segment, segment] ''PT20H'' 0 ''680.00''))"
  using C4_pass_condition [of "offer_example [segment, segment] ''PT20H'' 1 ''680.00''"]
    C4_pass_condition [of "offer_example [segment, segment, segment] ''PT20H'' 1 ''680.00''"]
    C4_pass_condition [of "offer_example [segment, segment] ''PT20H'' 0 ''680.00''"]
  by (simp add: offer_example_spec offer_example_locals)

lemma offer_null_codes_locals: "offer_locals offer_null_codes = Inl TypeError"
  by (simp add: offer_locals_def offer_null_codes_def py_get_def py_iter_def py_len_def
      parse_PT20H bags_def fare_has_bag_def py_truthy_def py_gt_zero_def)

lemma offer_null_codes_spec:
  "max_stop_count (itineraries_of offer_null_codes) = 1"
  "accumulated_hours (itineraries_of offer_null_codes) = Fin 20"
  "some_bag_included offer_null_codes"
  by (simp_all add: max_stop_count_def itineraries_of_def offer_null_codes_def py_get_def
      py_iter_def stop_count_def segment_count_def py_len_def accumulated_hours_def
      itinerary_hours_def parse_PT20H some_bag_included_def pricings_of_def fares_of_def
      bags_def reports_included_bag_def quantity_positive_def)

text \<open>
  C4, counterexample: an offer with one itinerary of two segments and 20 hours, one
  included checked bag, and \<open>null\<close> for its validating airline codes: the three
  conditions hold, the iteration of line 196 raises \<open>TypeError\<close>, the handler of line 200
  catches it, and the offer does not pass.
\<close>

theorem C4_null_airline_codes_counterexample:
  "max_stop_count (itineraries_of offer_null_codes) \<le> 1
   \<and> pf_less (accumulated_hours (itineraries_of offer_null_codes)) (Fin 25)
   \<and> some_bag_included offer_null_codes
   \<and> offer_locals offer_null_codes = Inl TypeError
   \<and> \<not> fst (offer_meets_rules offer_null_codes)"
  by (simp add: offer_null_codes_spec offer_null_codes_locals offer_meets_rules_def
      offer_try_def)


subsection \<open>Properties of the orchestrator\<close>

lemma osaka_alert_fires:
  "(\<exists>a. osaka_alert top3_osaka = Inr (Some a)) \<longleftrightarrow>
     top3_osaka \<noteq> []
     \<and> (\<exists>p. py_float (c_price (hd top3_osaka)) = Inr p
            \<and> (pf_le p (Fin 650)
                \<or> (pf_le (Fin 651) p \<and> pf_le p (Fin 700)
                    \<and> exceptional_itinerary (c_hours (hd top3_osaka)) [] (c_premium (hd top3_osaka)))))"
proof (cases top3_osaka)
  case Nil
  then show ?thesis by (simp add: osaka_alert_def)
next
  case (Cons best rest)
  show ?thesis
  proof (cases "py_float (c_price best)")
    case (Inl e)
    then show ?thesis by (simp add: osaka_alert_def Cons)
  next
    case (Inr p)
    then show ?thesis
      by (simp add: osaka_alert_def Cons THRESHOLD_MAIN_def EXCEPTION_MIN_def EXCEPTION_MAX_def)
  qed
qed

lemma combo_alert_fires:
  "(\<exists>a. combo_alert top3_cebu top3_osaka = Inr (Some a)) \<longleftrightarrow>
     top3_cebu \<noteq> [] \<and> top3_osaka \<noteq> []
     \<and> (\<exists>p. py_float (c_price (hd top3_osaka)) = Inr p
            \<and> pf_less (to_b64 (total (hd top3_cebu))) (b64_add p (Fin 300)))"
proof (cases top3_cebu)
  case Nil
  then show ?thesis by (simp add: combo_alert_def)
next
  case c: (Cons cb crest)
  show ?thesis
  proof (cases top3_osaka)
    case Nil
    then show ?thesis by (simp add: combo_alert_def c)
  next
    case (Cons best rest)
    show ?thesis
    proof (cases "py_float (c_price best)")
      case (Inl e)
      then show ?thesis by (simp add: combo_alert_def c Cons)
    next
      case (Inr p)
      then show ?thesis by (simp add: combo_alert_def c Cons Let_def)
    qed
  qed
qed

lemma osaka_alert_raises:
  "(\<exists>e. osaka_alert top3_osaka = Inl e) \<longleftrightarrow>
     top3_osaka \<noteq> [] \<and> (\<exists>e. py_float (c_price (hd top3_osaka)) = Inl e)"
  by (cases top3_osaka; cases "py_float (c_price (hd top3_osaka))")
     (auto simp: osaka_alert_def)

lemma combo_alert_raises:
  "combo_alert top3_cebu top3_osaka = Inl e \<Longrightarrow> \<exists>e'. osaka_alert top3_osaka = Inl e'"
  by (cases top3_cebu; cases top3_osaka; cases "py_float (c_price (hd top3_osaka))")
     (auto simp: combo_alert_def osaka_alert_def Let_def split: if_splits)

lemma derive_alerts_osaka:
  "(\<exists>al a. derive_alerts top3_osaka top3_cebu = Inr al \<and> osaka al = Some a)
     \<longleftrightarrow> (\<exists>a. osaka_alert top3_osaka = Inr (Some a))"
proof
  assume "\<exists>al a. derive_alerts top3_osaka top3_cebu = Inr al \<and> osaka al = Some a"
  then show "\<exists>a. osaka_alert top3_osaka = Inr (Some a)"
    by (auto simp: derive_alerts_def py_bind_Inr)
next
  assume "\<exists>a. osaka_alert top3_osaka = Inr (Some a)"
  then obtain a where a: "osaka_alert top3_osaka = Inr (Some a)" by blast
  obtain b where "combo_alert top3_cebu top3_osaka = Inr b"
    using combo_alert_raises [of top3_cebu top3_osaka] a
    by (cases "combo_alert top3_cebu top3_osaka") auto
  with a show "\<exists>al a. derive_alerts top3_osaka top3_cebu = Inr al \<and> osaka al = Some a"
    by (simp add: derive_alerts_def)
qed

lemma derive_alerts_combo:
  "(\<exists>al a. derive_alerts top3_osaka top3_cebu = Inr al \<and> cebu_combo al = Some a)
     \<longleftrightarrow> (\<exists>a. combo_alert top3_cebu top3_osaka = Inr (Some a))"
proof
  assume "\<exists>al a. derive_alerts top3_osaka top3_cebu = Inr al \<and> cebu_combo al = Some a"
  then show "\<exists>a. combo_alert top3_cebu top3_osaka = Inr (Some a)"
    by (auto simp: derive_alerts_def py_bind_Inr)
next
  assume "\<exists>a. combo_alert top3_cebu top3_osaka = Inr (Some a)"
  then obtain b where b: "combo_alert top3_cebu top3_osaka = Inr (Some b)" by blast
  then have "top3_osaka \<noteq> []" "\<exists>p. py_float (c_price (hd top3_osaka)) = Inr p"
    using combo_alert_fires [of top3_cebu top3_osaka] by blast+
  then obtain a where "osaka_alert top3_osaka = Inr a"
    using osaka_alert_raises [of top3_osaka]
    by (cases "osaka_alert top3_osaka") auto
  with b show "\<exists>al a. derive_alerts top3_osaka top3_cebu = Inr al \<and> cebu_combo al = Some a"
    by (simp add: derive_alerts_def)
qed

text \<open>
  C5: the direct-route alert fires if and only if the direct result set is non-empty, the
  price of its first (cheapest) offer reads as a number, and that price is at most 650,
  or lies between 651 and 700 while the exceptional-itinerary predicate holds on the
  compacted offer's rounded hours, an empty layover list and its premium flag.
\<close>

theorem C5_direct_alert:
  "(\<exists>al a. derive_alerts top3_osaka top3_cebu = Inr al \<and> osaka al = Some a) \<longleftrightarrow>
     top3_osaka \<noteq> []
     \<and> (\<exists>p. py_float (c_price (hd top3_osaka)) = Inr p
            \<and> (pf_le p (Fin 650)
                \<or> (pf_le (Fin 651) p \<and> pf_le p (Fin 700)
                    \<and> exceptional_itinerary (c_hours (hd top3_osaka)) [] (c_premium (hd top3_osaka)))))"
  unfolding derive_alerts_osaka by (rule osaka_alert_fires)

text \<open>
  C6 (amended): the combo alert fires if and only if both ranked result sets are
  non-empty, the price of the first direct offer reads as a number, and the total of the
  first combo is strictly less than the reference price, which is the binary64 sum of
  that price and 300: the sum of the two binary64 numbers rounded to the nearest
  binary64 number.
\<close>

theorem C6_combo_alert:
  "(\<exists>al a. derive_alerts top3_osaka top3_cebu = Inr al \<and> cebu_combo al = Some a) \<longleftrightarrow>
     top3_cebu \<noteq> [] \<and> top3_osaka \<noteq> []
     \<and> (\<exists>p. py_float (c_price (hd top3_osaka)) = Inr p
            \<and> pf_less (to_b64 (total (hd top3_cebu))) (b64_add p (Fin 300)))"
  unfolding derive_alerts_combo by (rule combo_alert_fires)

lemmas float_eval_defs =
  py_float_def py_float_str_def py_strip_def py_isspace_def split_sign_def py_lower_def
  lower_char_def upper_letters_def lower_letters_def decimal_literal_def split_at_def
  optional_digits_def digitpart_def is_digit_def exponent_val_def dec_val_def digit_val_def
  pow10_def

lemma price_values:
  "py_float (JStr ''650.0'') = Inr (Fin 650)"
  "py_float (JStr ''680.0'') = Inr (Fin 680)"
  "py_float (JStr ''720.0'') = Inr (Fin 720)"
  "py_float (JStr ''600'') = Inr (Fin 600)"
  "py_float (JStr ''1000.07'') = Inr (Fin (100007 / 100))"
  by (simp_all add: float_eval_defs)

text \<open>
  C5, instance: a price of 650.0 fires; 680.0 with 16 hours fires; 680.0 with 20 hours and no premium
  carrier does not; 720.0 does not; an empty result set does not.
\<close>

theorem C5_direct_alert_witness:
  "(\<exists>al a. derive_alerts [best_example ''650.0'' (Fin 20) False] [] = Inr al \<and> osaka al = Some a)
   \<and> (\<exists>al a. derive_alerts [best_example ''680.0'' (Fin 16) False] [] = Inr al \<and> osaka al = Some a)
   \<and> \<not> (\<exists>al a. derive_alerts [best_example ''680.0'' (Fin 20) False] [] = Inr al \<and> osaka al = Some a)
   \<and> \<not> (\<exists>al a. derive_alerts [best_example ''720.0'' (Fin 16) True] [] = Inr al \<and> osaka al = Some a)
   \<and> \<not> (\<exists>al a. derive_alerts [] [] = Inr al \<and> osaka al = Some a)"
  using C5_direct_alert [of "[best_example ''650.0'' (Fin 20) False]" "[]"]
    C5_direct_alert [of "[best_example ''680.0'' (Fin 16) False]" "[]"]
    C5_direct_alert [of "[best_example ''680.0'' (Fin 20) False]" "[]"]
    C5_direct_alert [of "[best_example ''720.0'' (Fin 16) True]" "[]"]
    C5_direct_alert [of "[]" "[]"]
  by (simp add: best_example_def price_values exceptional_itinerary_def)

text \<open>
  C6, instance: direct 600 and combo 850 fires; combo 950 and combo 900 do not; an empty direct or
  combo result set does not.
\<close>

theorem C6_combo_alert_witness:
  "(\<exists>al a. derive_alerts [best_example ''600'' (Fin 20) False] [combo_example 850] = Inr al
            \<and> cebu_combo al = Some a)
   \<and> \<not> (\<exists>al a. derive_alerts [best_example ''600'' (Fin 20) False] [combo_example 950] = Inr al
            \<and> cebu_combo al = Some a)
   \<and> \<not> (\<exists>al a. derive_alerts [best_example ''600'' (Fin 20) False] [combo_example 900] = Inr al
            \<and> cebu_combo al = Some a)
   \<and> \<not> (\<exists>al a. derive_alerts [] [combo_example 100] = Inr al \<and> cebu_combo al = Some a)
   \<and> \<not> (\<exists>al a. derive_alerts [best_example ''600'' (Fin 20) False] [] = Inr al
            \<and> cebu_combo al = Some a)"
  using C6_combo_alert [of "[best_example ''600'' (Fin 20) False]" "[combo_example 850]"]
    C6_combo_alert [of "[best_example ''600'' (Fin 20) False]" "[combo_example 950]"]
    C6_combo_alert [of "[best_example ''600'' (Fin 20) False]" "[combo_example 900]"]
    C6_combo_alert [of "[]" "[combo_example 100]"]
    C6_combo_alert [of "[best_example ''600'' (Fin 20) False]" "[]"]
  by (simp add: best_example_def combo_example_def price_values b64_add_def b64_round_values)

text \<open>
  C6, counterexample: a direct price of 1000.07 and a combo total of 1300.07: the total
  is not strictly less than the price plus 300, which it equals, and the alert fires. The
  reference price that the alert reports is the binary64 sum 1300.0700000000002, the
  binary64 number next above 1300.07.
\<close>

theorem C6_binary64_sum_counterexample:
  "py_float (c_price (best_example ''1000.07'' (Fin 20) False)) = Inr (Fin (100007 / 100))
   \<and> total (combo_example (130007 / 100)) = Fin (130007 / 100)
   \<and> \<not> pf_less (Fin (130007 / 100)) (pf_add (Fin (100007 / 100)) (Fin 300))
   \<and> derive_alerts [best_example ''1000.07'' (Fin 20) False] [combo_example (130007 / 100)]
       = Inr \<lparr>osaka = None,
              cebu_combo = Some (combo_example (130007 / 100),
                                 Fin (2858884163845489 / 2199023255552))\<rparr>"
proof -
  have r: "b64_add (Fin (100007 / 100)) (Fin 300) = Fin (2858884163845489 / 2199023255552)"
    by (simp add: b64_add_def b64_round_values, simp add: b64_eval)
  have o: "osaka_alert [best_example ''1000.07'' (Fin 20) False] = Inr None"
    by (simp add: osaka_alert_def best_example_def price_values THRESHOLD_MAIN_def
        EXCEPTION_MIN_def EXCEPTION_MAX_def)
  have c: "combo_alert [combo_example (130007 / 100)] [best_example ''1000.07'' (Fin 20) False]
      = Inr (Some (combo_example (130007 / 100), Fin (2858884163845489 / 2199023255552)))"
    by (simp add: combo_alert_def best_example_def price_values r Let_def,
        simp add: combo_example_def b64_round_values)
  show ?thesis
    by (simp add: derive_alerts_def o c, simp add: best_example_def combo_example_def price_values)
qed

lemma compact_price:
  assumes "compact offer m = Inr ca"
  shows "price_of ca = get_price offer"
proof -
  from assms obtain p1 price where
    p1: "py_get offer ''price'' (JObj []) = Inr p1" and
    pr: "py_get p1 ''total'' JNull = Inr price" and
    ca: "c_price ca = price"
    unfolding compact_def by (auto simp: py_bind_Inr)
  from pr obtain kvs where kvs: "p1 = JObj kvs"
    by (cases p1) (auto simp: py_get_def)
  have t: "py_get p1 ''total'' dflt =
             Inr (case map_of kvs ''total'' of Some v \<Rightarrow> v | None \<Rightarrow> dflt)" for dflt
    by (simp add: kvs py_get_def)
  show ?thesis
  proof (cases "map_of kvs ''total''")
    case None
    then have "price = JNull" using pr by (simp add: t)
    then show ?thesis
      using None by (simp add: price_of_def get_price_def p1 t ca py_float_def)
  next
    case (Some v)
    then have "price = v" using pr by (simp add: t)
    then show ?thesis
      using Some by (simp add: price_of_def get_price_def p1 t ca split: sum.splits)
  qed
qed

lemma make_combo_result:
  assumes "make_combo cur a b d1 d2 = Inr cb"
  shows "total cb = py_round (pf_add (price_of (osa_ceb cb)) (price_of (ceb_par cb))) 2"
    and "date_osa_ceb cb = d1" and "date_ceb_par cb = d2"
proof -
  from assms obtain curr ca cb' where
    ca: "compact (fst a) (snd a) = Inr ca" and
    cb': "compact (fst b) (snd b) = Inr cb'" and
    cb: "cb = \<lparr>total = py_round (pf_add (get_price (fst a)) (get_price (fst b))) 2,
              currency = curr, osa_ceb = ca, ceb_par = cb',
              date_osa_ceb = d1, date_ceb_par = d2\<rparr>"
    unfolding make_combo_def by (auto simp: py_bind_Inr Let_def)
  show "total cb = py_round (pf_add (price_of (osa_ceb cb)) (price_of (ceb_par cb))) 2"
    by (simp add: cb compact_price [OF ca] compact_price [OF cb'])
  show "date_osa_ceb cb = d1" "date_ceb_par cb = d2"
    by (simp_all add: cb)
qed

lemma combos_inner_ok:
  assumes "combos_inner cur a bs d (d + 14) acc = Inr acc'" "d \<in> set window"
    and "\<forall>cb \<in> set acc. combo_ok window cb"
  shows "\<forall>cb \<in> set acc'. combo_ok window cb"
  using assms
proof (induction bs arbitrary: acc)
  case Nil
  then show ?case by simp
next
  case (Cons b bs)
  from Cons.prems(1) obtain cb where
    m: "make_combo cur a b d (d + 14) = Inr cb" and
    rest: "combos_inner cur a bs d (d + 14) (acc @ [cb]) = Inr acc'"
    by (auto simp: py_bind_Inr)
  have "combo_ok window cb"
    using make_combo_result [OF m] Cons.prems(2) by (simp add: combo_ok_def)
  with Cons.prems(3) have "\<forall>x \<in> set (acc @ [cb]). combo_ok window x" by simp
  from Cons.IH [OF rest Cons.prems(2) this] show ?case .
qed

lemma combos_outer_ok:
  assumes "combos_outer cur as bs d (d + 14) acc = Inr acc'" "d \<in> set window"
    and "\<forall>cb \<in> set acc. combo_ok window cb"
  shows "\<forall>cb \<in> set acc'. combo_ok window cb"
  using assms
proof (induction as arbitrary: acc)
  case Nil
  then show ?case by simp
next
  case (Cons a as)
  from Cons.prems(1) obtain acc1 where
    i: "combos_inner cur a bs d (d + 14) acc = Inr acc1" and
    rest: "combos_outer cur as bs d (d + 14) acc1 = Inr acc'"
    by (auto simp: py_bind_Inr)
  from Cons.IH [OF rest Cons.prems(2) combos_inner_ok [OF i Cons.prems(2,3)]] show ?case .
qed

lemma phase_b_date_ok:
  assumes "phase_b_date srv cur d acc c = (Inr acc', c')" "d \<in> set window"
    and "\<forall>cb \<in> set acc. combo_ok window cb"
  shows "\<forall>cb \<in> set acc'. combo_ok window cb"
proof -
  from assms(1) obtain osa ceb where
    "combos_outer cur osa ceb d (d + 14) acc = Inr acc'"
    unfolding phase_b_date_def
    by (auto simp: Let_def split: prod.splits sum.splits)
  from combos_outer_ok [OF this assms(2,3)] show ?thesis .
qed

lemma phase_b_loop_ok:
  assumes "phase_b_loop srv cur ds acc c = (Inr acc', c')" "set ds \<subseteq> set window"
    and "\<forall>cb \<in> set acc. combo_ok window cb"
  shows "\<forall>cb \<in> set acc'. combo_ok window cb"
  using assms
proof (induction ds arbitrary: acc c)
  case Nil
  then show ?case by simp
next
  case (Cons d ds)
  from Cons.prems(1) obtain acc1 c1 where
    s: "phase_b_date srv cur d acc c = (Inr acc1, c1)" and
    rest: "phase_b_loop srv cur ds acc1 c1 = (Inr acc', c')"
    by (auto split: prod.splits sum.splits)
  have d: "d \<in> set window" and ds: "set ds \<subseteq> set window"
    using Cons.prems(2) by auto
  from Cons.IH [OF rest ds phase_b_date_ok [OF s d Cons.prems(3)]] show ?case .
qed

text \<open>
  C10 (amended): every combination built by phase B has as total the sum of the prices
  of its two legs rounded to two decimals, its second date is its first date plus 14
  days, and its first date lies in the window 2026-04-01 .. 2026-04-15.
\<close>

theorem C10_combo_invariant:
  assumes "phase_b srv cur c = (Inr combos, c')"
  shows "\<forall>cb \<in> set combos.
           total cb = py_round (pf_add (price_of (osa_ceb cb)) (price_of (ceb_par cb))) 2
           \<and> date_ceb_par cb = date_osa_ceb cb + 14
           \<and> date_osa_ceb cb \<in> set (daterange (date 2026 4 1) (date 2026 4 15))"
  using phase_b_loop_ok [OF assms [unfolded phase_b_def], of "daterange (date 2026 4 1) (date 2026 4 15)"]
  by (simp add: combo_ok_def)

lemma offer_meets_rules_success:
  assumes "offer_locals offer = Inr (t, s, l, b, p)"
  shows "offer_meets_rules offer =
           (s \<le> 1 \<and> pf_less t (Fin 25) \<and> b,
            \<lparr>total_hours = t, stops = s, bag_included = b, premium = p, layovers = l\<rparr>)"
  using assms
  by (simp add: offer_meets_rules_def offer_try_def default_metrics_def Let_def
      MAX_STOPS_def MAX_DURATION_HOURS_def BAGGAGE_REQUIRED_def)

lemma leg_cheap_valid: "offer_meets_rules leg_cheap = (True, leg_metrics)"
  using offer_meets_rules_success [OF offer_example_locals, of "[segment]" 1 "''0.001''"]
  by (simp add: leg_cheap_def leg_metrics_def)

lemma leg_cheap_price: "py_float (JStr ''0.001'') = Inr (Fin (1 / 1000))"
  by (simp add: float_eval_defs)

lemma leg_cheap_get_price: "get_price leg_cheap = Fin (1 / 1000)"
  by (simp add: get_price_def leg_cheap_def offer_example_def py_get_def leg_cheap_price)

lemma py_round_values:
  "py_round (Fin 20) (Suc 0) = Fin 20" "py_round (Fin (1 / 500)) 2 = Fin 0"
  by (simp_all add: py_round.simps b64_round_values, simp_all add: b64_eval)

lemma leg_cheap_compact: "compact leg_cheap leg_metrics = Inr leg_compact"
  by (simp add: compact_def leg_cheap_def offer_example_def py_get_def py_join_comma_def
      py_iter_def join_comma_def leg_metrics_def leg_compact_def py_round_values)

lemma make_combo_cheap:
  "make_combo cur (leg_cheap, leg_metrics) (leg_cheap, leg_metrics) d (d + 14) = Inr (combo_cheap d)"
proof -
  have c: "py_bind (py_get leg_cheap ''price'' (JObj [])) (\<lambda>p. py_get p ''currency'' (JStr cur))
           = Inr (JStr ''EUR'')"
    by (simp add: leg_cheap_def offer_example_def py_get_def)
  then obtain p where p: "py_get leg_cheap ''price'' (JObj []) = Inr p"
    "py_get p ''currency'' (JStr cur) = Inr (JStr ''EUR'')"
    by (auto simp: py_bind_Inr)
  show ?thesis
    by (simp add: make_combo_def p leg_cheap_compact leg_cheap_get_price py_round_values
        combo_cheap_def Let_def)
qed

lemma client_search_cheap:
  assumes "py_truthy (token c)"
  shows "search_offers srv_cheap cur origin dest d None c
         = (Inr (JArr [leg_cheap]), c\<lparr>gets := Suc (gets c)\<rparr>)"
proof -
  have r: "get_response srv_cheap url ps c i =
      \<lparr>status_code = 200, retry_after = None,
       json_body = Some (JObj [(''data'', JArr [leg_cheap])])\<rparr>" for url ps i
    by (simp add: get_response_def srv_cheap_def srv_always_def leg_cheap_def)
  have "safe_get srv_cheap url ps 6 c =
      (Inr \<lparr>status_code = 200, retry_after = None,
            json_body = Some (JObj [(''data'', JArr [leg_cheap])])\<rparr>,
       c\<lparr>gets := Suc (gets c)\<rparr>)" for url ps
    using safe_get_outcome [OF assms, of 0 srv_cheap url ps 6]
    by (simp add: r waits_def)
  then show ?thesis
    by (simp add: search_offers_def Let_def response_json_def py_get_def)
qed

lemma search_legs_cheap:
  assumes "py_truthy (token c)"
  shows "search_legs srv_cheap cur pairs d valid c
         = (Inr (valid @ replicate (length pairs) (leg_cheap, leg_metrics)),
            c\<lparr>gets := gets c + length pairs\<rparr>)"
  using assms
proof (induction pairs arbitrary: valid c)
  case Nil
  then show ?case by simp
next
  case (Cons pr pairs)
  obtain origin dest where pr: "pr = (origin, dest)" by (cases pr)
  have tok: "py_truthy (token (c\<lparr>gets := Suc (gets c)\<rparr>))" using Cons.prems by simp
  show ?case
    by (simp add: pr client_search_cheap [OF Cons.prems] py_iter_def leg_cheap_valid
        Cons.IH [OF tok] replicate_app_Cons_same)
qed

lemma combos_inner_cheap:
  "combos_inner cur (leg_cheap, leg_metrics) (replicate n (leg_cheap, leg_metrics)) d (d + 14) acc
   = Inr (acc @ replicate n (combo_cheap d))"
  by (induction n arbitrary: acc) (simp_all add: make_combo_cheap replicate_app_Cons_same)

lemma combos_outer_cheap:
  "combos_outer cur (replicate k (leg_cheap, leg_metrics)) (replicate n (leg_cheap, leg_metrics))
     d (d + 14) acc
   = Inr (acc @ replicate (k * n) (combo_cheap d))"
  by (induction k arbitrary: acc) (simp_all add: combos_inner_cheap replicate_add)

lemma phase_b_date_cheap:
  assumes "py_truthy (token c)"
  shows "phase_b_date srv_cheap cur d acc c
         = (Inr (acc @ replicate 6 (combo_cheap d)), c\<lparr>gets := gets c + 5\<rparr>)"
proof -
  have tok: "py_truthy (token (c\<lparr>gets := gets c + 3\<rparr>))" using assms by simp
  have a: "search_legs srv_cheap cur (map (\<lambda>a. (a, CEBU_AIRPORT)) OSAKA_AIRPORTS) d [] c
      = (Inr (replicate 3 (leg_cheap, leg_metrics)), c\<lparr>gets := gets c + 3\<rparr>)"
    unfolding search_legs_cheap [OF assms] by (simp add: OSAKA_AIRPORTS_def numeral_eq_Suc)
  have b: "search_legs srv_cheap cur (map (\<lambda>p. (CEBU_AIRPORT, p)) PARIS_AIRPORTS) (d + 14) []
             (c\<lparr>gets := gets c + 3\<rparr>)
      = (Inr (replicate 2 (leg_cheap, leg_metrics)), c\<lparr>gets := gets c + 5\<rparr>)"
    unfolding search_legs_cheap [OF tok] by (simp add: PARIS_AIRPORTS_def numeral_eq_Suc)
  show ?thesis
    using combos_outer_cheap [of cur 3 2 d acc]
    by (simp add: phase_b_date_def Let_def a b)
qed

lemma phase_b_loop_cheap:
  assumes "py_truthy (token c)"
  shows "phase_b_loop srv_cheap cur ds acc c
         = (Inr (acc @ concat (map (\<lambda>d. replicate 6 (combo_cheap d)) ds)),
            c\<lparr>gets := gets c + 5 * length ds\<rparr>)"
  using assms
proof (induction ds arbitrary: acc c)
  case Nil
  then show ?case by simp
next
  case (Cons d ds)
  have tok: "py_truthy (token (c\<lparr>gets := gets c + 5\<rparr>))" using Cons.prems by simp
  show ?case
    by (simp add: phase_b_date_cheap [OF Cons.prems] Cons.IH [OF tok])
qed

lemma phase_b_cheap_hd:
  "\<not> isl (fst (phase_b srv_cheap ''EUR'' client0))"
  "hd (projr (fst (phase_b srv_cheap ''EUR'' client0))) = combo_cheap (date 2026 4 1)"
  "hd (projr (fst (phase_b srv_cheap ''EUR'' client0))) \<in> set (projr (fst (phase_b srv_cheap ''EUR'' client0)))"
proof -
  have tok: "py_truthy (token client0)" by (simp add: client0_def py_truthy_def)
  have dr: "daterange (date 2026 4 1) (date 2026 4 15) = date 2026 4 1 # [date 2026 4 1 + 1 .. date 2026 4 15]"
    by (simp add: daterange_upto date_2026_04 upto_rec1)
  have p: "phase_b srv_cheap ''EUR'' client0 =
      (Inr (concat (map (\<lambda>d. replicate 6 (combo_cheap d)) (daterange (date 2026 4 1) (date 2026 4 15)))),
       client0\<lparr>gets := gets client0 + 5 * length (daterange (date 2026 4 1) (date 2026 4 15))\<rparr>)"
    by (simp add: phase_b_def phase_b_loop_cheap [OF tok])
  show "\<not> isl (fst (phase_b srv_cheap ''EUR'' client0))" by (simp add: p)
  show "hd (projr (fst (phase_b srv_cheap ''EUR'' client0))) = combo_cheap (date 2026 4 1)"
    unfolding p dr by (simp add: numeral_eq_Suc)
  show "hd (projr (fst (phase_b srv_cheap ''EUR'' client0))) \<in> set (projr (fst (phase_b srv_cheap ''EUR'' client0)))"
    unfolding p dr by (simp add: numeral_eq_Suc)
qed

text \<open>C10, instance: the first combination of a run against a service that has offers.\<close>

theorem C10_combo_invariant_witness:
  "total (hd (projr (fst (phase_b srv_cheap ''EUR'' client0)))) =
     py_round (pf_add (price_of (osa_ceb (hd (projr (fst (phase_b srv_cheap ''EUR'' client0))))))
                      (price_of (ceb_par (hd (projr (fst (phase_b srv_cheap ''EUR'' client0))))))) 2
   \<and> date_ceb_par (hd (projr (fst (phase_b srv_cheap ''EUR'' client0))))
       = date_osa_ceb (hd (projr (fst (phase_b srv_cheap ''EUR'' client0)))) + 14
   \<and> date_osa_ceb (hd (projr (fst (phase_b srv_cheap ''EUR'' client0)))) = date 2026 4 1"
proof -
  obtain combos c' where p: "phase_b srv_cheap ''EUR'' client0 = (Inr combos, c')"
    using phase_b_cheap_hd(1)
    by (cases "phase_b srv_cheap ''EUR'' client0"; cases "fst (phase_b srv_cheap ''EUR'' client0)")
       auto
  have "hd combos \<in> set combos" using phase_b_cheap_hd(3) by (simp add: p)
  with C10_combo_invariant [OF p] have
    "total (hd combos) = py_round (pf_add (price_of (osa_ceb (hd combos))) (price_of (ceb_par (hd combos)))) 2
     \<and> date_ceb_par (hd combos) = date_osa_ceb (hd combos) + 14"
    by blast
  moreover have "date_osa_ceb (hd combos) = date 2026 4 1"
    using phase_b_cheap_hd(2) by (simp add: p combo_cheap_def)
  ultimately show ?thesis by (simp add: p)
qed

text \<open>
  C10, counterexample: two legs priced 0.001 each: the run succeeds, and its first combination has the total
  0.0 while the prices of its legs add up to 0.002.
\<close>

theorem C10_rounded_total_counterexample:
  "\<not> isl (fst (phase_b srv_cheap ''EUR'' client0))
   \<and> total (hd (projr (fst (phase_b srv_cheap ''EUR'' client0)))) = Fin 0
   \<and> pf_add (price_of (osa_ceb (hd (projr (fst (phase_b srv_cheap ''EUR'' client0))))))
            (price_of (ceb_par (hd (projr (fst (phase_b srv_cheap ''EUR'' client0))))))
       = Fin (1 / 500)"
  by (simp add: phase_b_cheap_hd combo_cheap_def price_of_def leg_compact_def leg_cheap_price)

end
